theory Spec2Isabelle
  imports Complex_Main
begin

section \<open>Vectors and cosine similarity (utils/vector)\<close>

text \<open>
  A \<open>VectorMap\<close> is a JavaScript object used as a dictionary from feature keys to
  numbers. It is modelled by the list of its own properties in enumeration order.
  A read \<open>vector[key]\<close> is a read of an own property: the keys are the feature keys
  that \<open>traitsToVector\<close> synthesises, none of which names a property inherited from
  \<open>Object.prototype\<close>.
\<close>

type_synonym VectorMap = "(string \<times> real) list"

subsection \<open>Numbers\<close>

text \<open>
  A number is a double, modelled by the real number it holds. An arithmetic operation
  on doubles is the exact operation followed by a rounding, and the functions below
  take that rounding as their first argument \<open>rnd\<close>:
  \<^item> \<open>exact\<close>, no rounding, is arithmetic on the real numbers;
  \<^item> \<open>fl\<close> is the rounding of IEEE 754 binary64: to the nearest double, a tie
    going to the even significand. A double has a significand of 53 bits; below
    \<open>2 ^ - 1022\<close> the doubles are the multiples of \<open>2 ^ - 1074\<close>, the subnormal
    numbers, and a result of at most half of \<open>2 ^ - 1074\<close> underflows to 0.
  The four operations and \<open>Math.sqrt\<close> round correctly. There is no largest double in
  the model: a result beyond \<open>2 ^ 1024\<close>, which the machine replaces by
  \<open>Infinity\<close>, and the \<open>NaN\<close> that follows from it, are not part of the model. The
  weights of a trait profile lie between 0 and 1, and then the sums of the loop stay
  at or below \<open>2 ^ 53\<close> (\<open>accumulate_le_2_53\<close>).
\<close>

definition exact :: "real \<Rightarrow> real" where
  "exact = (\<lambda>x. x)"

text \<open>Rounding to the nearest integer, a tie going to the even one.\<close>

definition round_half_even :: "real \<Rightarrow> int" where
  "round_half_even q =
     (let n = \<lfloor>q\<rfloor>; r = q - of_int n
      in if r < 1 / 2 then n else if 1 / 2 < r then n + 1 else if even n then n else n + 1)"

text \<open>
  The binade of \<open>x\<close> is the \<open>e\<close> with \<open>2 ^ e \<le> |x| < 2 ^ (e + 1)\<close>; there the
  doubles are the multiples of \<open>ulp x = 2 ^ (e - 52)\<close>, and of \<open>2 ^ - 1074\<close> in all the
  binades below \<open>- 1022\<close>.
\<close>

definition binade :: "real \<Rightarrow> int" where
  "binade x = \<lfloor>log 2 \<bar>x\<bar>\<rfloor>"

definition ulp :: "real \<Rightarrow> real" where
  "ulp x = 2 powi (max (binade x) (- 1022) - 52)"

definition fl :: "real \<Rightarrow> real" where
  "fl x = (if x = 0 then 0 else of_int (round_half_even (x / ulp x)) * ulp x)"

subsection \<open>The similarity of two vectors\<close>

text \<open>\<open>Object.keys(vector)\<close>.\<close>

definition Object_keys :: "VectorMap \<Rightarrow> string list" where
  "Object_keys vector = map fst vector"

text \<open>\<open>new Set(list)\<close>: the elements in the order of their first insertion.\<close>

definition Set_add :: "'a list \<Rightarrow> 'a \<Rightarrow> 'a list" where
  "Set_add s x = (if x \<in> set s then s else s @ [x])"

definition new_Set :: "'a list \<Rightarrow> 'a list" where
  "new_Set xs = foldl Set_add [] xs"

text \<open>\<open>vector[key] || 0\<close>: a missing key and a falsy number both give 0.\<close>

definition get_or_zero :: "VectorMap \<Rightarrow> string \<Rightarrow> real" where
  "get_or_zero vector key =
     (case map_of vector key of
        None \<Rightarrow> 0
      | Some x \<Rightarrow> if x = 0 then 0 else x)"

text \<open>
  The body of the loop \<open>for (const key of keys)\<close> of \<open>cosineSimilarity\<close>, on the
  three accumulators \<open>(dotProduct, normA, normB)\<close>.
\<close>

fun accumulate ::
  "(real \<Rightarrow> real) \<Rightarrow> VectorMap \<Rightarrow> VectorMap \<Rightarrow> string list \<Rightarrow> real \<times> real \<times> real
     \<Rightarrow> real \<times> real \<times> real"
where
  "accumulate rnd vectorA vectorB [] acc = acc"
| "accumulate rnd vectorA vectorB (key # keys) (dotProduct, normA, normB) =
     (let valueA = get_or_zero vectorA key;
          valueB = get_or_zero vectorB key
      in accumulate rnd vectorA vectorB keys
           (rnd (dotProduct + rnd (valueA * valueB)),
            rnd (normA + rnd (valueA * valueA)),
            rnd (normB + rnd (valueB * valueB))))"

definition vector_keys :: "VectorMap \<Rightarrow> VectorMap \<Rightarrow> string list" where
  "vector_keys vectorA vectorB = new_Set (Object_keys vectorA @ Object_keys vectorB)"

definition vector_sums :: "(real \<Rightarrow> real) \<Rightarrow> VectorMap \<Rightarrow> VectorMap \<Rightarrow> real \<times> real \<times> real" where
  "vector_sums rnd vectorA vectorB =
     accumulate rnd vectorA vectorB (vector_keys vectorA vectorB) (0, 0, 0)"

definition cosineSimilarity :: "(real \<Rightarrow> real) \<Rightarrow> VectorMap \<Rightarrow> VectorMap \<Rightarrow> real" where
  "cosineSimilarity rnd vectorA vectorB =
     (case vector_sums rnd vectorA vectorB of
        (dotProduct, normA, normB) \<Rightarrow>
          if normA = 0 \<or> normB = 0 then 0
          else rnd (dotProduct / rnd (rnd (sqrt normA) * rnd (sqrt normB))))"

text \<open>The squared norms the loop leaves in \<open>normA\<close> and \<open>normB\<close>.\<close>

definition normA_of :: "(real \<Rightarrow> real) \<Rightarrow> VectorMap \<Rightarrow> VectorMap \<Rightarrow> real" where
  "normA_of rnd vectorA vectorB = fst (snd (vector_sums rnd vectorA vectorB))"

definition normB_of :: "(real \<Rightarrow> real) \<Rightarrow> VectorMap \<Rightarrow> VectorMap \<Rightarrow> real" where
  "normB_of rnd vectorA vectorB = snd (snd (vector_sums rnd vectorA vectorB))"

text \<open>An assignment \<open>vector[key] = value\<close>: an existing key keeps its place.\<close>

fun assign :: "VectorMap \<Rightarrow> string \<Rightarrow> real \<Rightarrow> VectorMap" where
  "assign [] key v = [(key, v)]"
| "assign ((k, x) # rest) key v =
     (if k = key then (key, v) # rest else (k, x) # assign rest key v)"



section \<open>Trait profiles and their vectors (types, utils/vector)\<close>

text \<open>
  \<open>UserTraits\<close>: \<open>personalityTraits\<close> is an object from trait names to numbers, held
  as the list of its entries; \<open>interests\<close> and \<open>values\<close> are arrays of strings.
\<close>

record UserTraits =
  personalityTraits :: "(string \<times> real) list"
  interests :: "string list"
  values' :: "string list"

text \<open>\<open>Object.entries(obj)\<close>.\<close>

definition Object_entries :: "(string \<times> real) list \<Rightarrow> (string \<times> real) list" where
  "Object_entries obj = obj"

definition traitsToVector :: "UserTraits \<Rightarrow> VectorMap" where
  "traitsToVector traits =
     (let vector0 = [];
          vector1 = fold (\<lambda>(trait, v) vector. assign vector (''personality_'' @ trait) v)
                      (Object_entries (personalityTraits traits)) vector0;
          vector2 = fold (\<lambda>interest vector. assign vector (''interest_'' @ interest) 1)
                      (interests traits) vector1;
          vector3 = fold (\<lambda>v vector. assign vector (''value_'' @ v) 1)
                      (values' traits) vector2
      in vector3)"

definition calculateUserSimilarity :: "(real \<Rightarrow> real) \<Rightarrow> UserTraits \<Rightarrow> UserTraits \<Rightarrow> real" where
  "calculateUserSimilarity rnd userATraits userBTraits =
     (let vectorA = traitsToVector userATraits;
          vectorB = traitsToVector userBTraits
      in cosineSimilarity rnd vectorA vectorB)"

text \<open>
  The Vectorizer as the specification words it, with a colon after the category:
  the features of the profile, for comparison with \<open>traitsToVector\<close>.
\<close>

definition spec_vectorize :: "UserTraits \<Rightarrow> (string \<times> real) set" where
  "spec_vectorize traits =
     (\<lambda>(trait, v). (''personality:'' @ trait, v)) ` set (personalityTraits traits)
     \<union> (\<lambda>interest. (''interest:'' @ interest, 1)) ` set (interests traits)
     \<union> (\<lambda>v. (''value:'' @ v, 1)) ` set (values' traits)"

text \<open>
  The assignments \<open>traitsToVector\<close> makes, in the order it makes them, and the
  lists of entries in which a key has one value only.
\<close>

definition feature_entries :: "UserTraits \<Rightarrow> (string \<times> real) list" where
  "feature_entries traits =
     map (\<lambda>(trait, v). (''personality_'' @ trait, v)) (personalityTraits traits)
     @ map (\<lambda>interest. (''interest_'' @ interest, 1)) (interests traits)
     @ map (\<lambda>v. (''value_'' @ v, 1)) (values' traits)"

definition functional :: "('k \<times> 'v) list \<Rightarrow> bool" where
  "functional xs \<longleftrightarrow> (\<forall>k v v'. (k, v) \<in> set xs \<longrightarrow> (k, v') \<in> set xs \<longrightarrow> v = v')"

text \<open>Removing a property, \<open>delete obj[key]\<close>.\<close>

definition delete_key :: "string \<Rightarrow> (string \<times> real) list \<Rightarrow> (string \<times> real) list" where
  "delete_key key obj = filter (\<lambda>(k, v). k \<noteq> key) obj"


section \<open>The database (Prisma schema)\<close>

text \<open>
  The tables the matching service and the match routes read and write, each a list of
  rows in storage order. Of a user the columns \<open>id\<close>, \<open>name\<close>, \<open>bio\<close>,
  \<open>communityId\<close> and \<open>traitVector\<close> are kept (a null column is \<open>None\<close>); the time
  stamps \<open>createdAt\<close> are left out of every row. The two counters are the
  \<open>autoincrement()\<close> sequences of the \<open>id\<close> columns.
\<close>

record User =
  user_id :: int
  name :: string
  bio :: "string option"
  communityId :: int
  traitVector :: "UserTraits option"

record Like =
  like_id :: int
  fromUserId :: int
  toUserId :: int

record Match =
  match_id :: int
  userAId :: int
  userBId :: int

record DB =
  users :: "User list"
  likes :: "Like list"
  matches :: "Match list"
  likeSeq :: int
  matchSeq :: int

text \<open>A thrown \<open>Error\<close> with its message.\<close>

datatype error = Error string

text \<open>\<open>prisma.user.findUnique({ where: { id } })\<close>.\<close>

definition user_findUnique :: "int \<Rightarrow> DB \<Rightarrow> User option" where
  "user_findUnique i db = find (\<lambda>u. user_id u = i) (users db)"

text \<open>\<open>prisma.like.findUnique({ where: { fromUserId_toUserId: ... } })\<close>.\<close>

definition like_findUnique :: "int \<Rightarrow> int \<Rightarrow> DB \<Rightarrow> Like option" where
  "like_findUnique f t db = find (\<lambda>l. fromUserId l = f \<and> toUserId l = t) (likes db)"

text \<open>
  \<open>prisma.like.create\<close>: the row must respect \<open>@@unique([fromUserId, toUserId])\<close>
  and both relations must connect to existing users.
\<close>

definition like_create :: "int \<Rightarrow> int \<Rightarrow> DB \<Rightarrow> error + DB" where
  "like_create f t db =
     (if like_findUnique f t db \<noteq> None then Inl (Error ''Unique constraint failed'')
      else if user_findUnique f db = None \<or> user_findUnique t db = None
        then Inl (Error ''Foreign key constraint failed'')
      else Inr (db\<lparr>likes := likes db @ [\<lparr>like_id = likeSeq db, fromUserId = f, toUserId = t\<rparr>],
                    likeSeq := likeSeq db + 1\<rparr>))"

text \<open>\<open>prisma.like.delete\<close> by the unique pair: it throws when there is no such row.\<close>

definition like_delete :: "int \<Rightarrow> int \<Rightarrow> DB \<Rightarrow> error + DB" where
  "like_delete f t db =
     (case like_findUnique f t db of
        None \<Rightarrow> Inl (Error ''Record to delete does not exist'')
      | Some l \<Rightarrow> Inr (db\<lparr>likes := remove1 l (likes db)\<rparr>))"

text \<open>
  The \<open>where\<close> clause \<open>OR: [{ userAId: a, userBId: b }, { userAId: b, userBId: a }]\<close>.
\<close>

definition pair_where :: "int \<Rightarrow> int \<Rightarrow> Match \<Rightarrow> bool" where
  "pair_where a b m \<longleftrightarrow> (userAId m = a \<and> userBId m = b) \<or> (userAId m = b \<and> userBId m = a)"

definition match_findFirst :: "int \<Rightarrow> int \<Rightarrow> DB \<Rightarrow> Match option" where
  "match_findFirst a b db = find (pair_where a b) (matches db)"

text \<open>
  \<open>prisma.match.create\<close>: the row must respect \<open>@@unique([userAId, userBId])\<close>, a
  constraint on the ordered pair, and both user columns reference existing users.
\<close>

definition match_create :: "int \<Rightarrow> int \<Rightarrow> DB \<Rightarrow> error + (Match \<times> DB)" where
  "match_create a b db =
     (if find (\<lambda>m. userAId m = a \<and> userBId m = b) (matches db) \<noteq> None
        then Inl (Error ''Unique constraint failed'')
      else if user_findUnique a db = None \<or> user_findUnique b db = None
        then Inl (Error ''Foreign key constraint failed'')
      else (let m = \<lparr>match_id = matchSeq db, userAId = a, userBId = b\<rparr>
            in Inr (m, db\<lparr>matches := matches db @ [m], matchSeq := matchSeq db + 1\<rparr>)))"

text \<open>\<open>prisma.match.delete({ where: { id } })\<close>.\<close>

definition match_delete :: "int \<Rightarrow> DB \<Rightarrow> error + DB" where
  "match_delete i db =
     (case find (\<lambda>m. match_id m = i) (matches db) of
        None \<Rightarrow> Inl (Error ''Record to delete does not exist'')
      | Some m \<Rightarrow> Inr (db\<lparr>matches := remove1 m (matches db)\<rparr>))"

text \<open>The rows of the \<open>Match\<close> table that relate the two users, in either orientation.\<close>

definition pair_matches :: "int \<Rightarrow> int \<Rightarrow> DB \<Rightarrow> Match list" where
  "pair_matches a b db = filter (pair_where a b) (matches db)"

text \<open>
  Consistency of the stored rows: the \<open>id\<close> of a match is unique and below the
  sequence, no two rows of \<open>Match\<close> relate the same unordered pair of users, no
  two rows of \<open>Like\<close> have the same ordered pair, and a like references existing
  users.
\<close>

definition match_pair :: "Match \<Rightarrow> int set" where
  "match_pair m = {userAId m, userBId m}"

definition like_pair :: "Like \<Rightarrow> int \<times> int" where
  "like_pair l = (fromUserId l, toUserId l)"

definition db_consistent :: "DB \<Rightarrow> bool" where
  "db_consistent db \<longleftrightarrow>
     distinct (map match_id (matches db))
     \<and> list_all (\<lambda>m. match_id m < matchSeq db) (matches db)
     \<and> distinct (map match_pair (matches db))
     \<and> distinct (map like_pair (likes db))
     \<and> list_all (\<lambda>l. user_findUnique (fromUserId l) db \<noteq> None
                     \<and> user_findUnique (toUserId l) db \<noteq> None) (likes db)"


section \<open>The matching service (services/matching)\<close>

record ScoredUser =
  cand_id :: int
  cand_name :: string
  cand_bio :: "string option"
  similarityScore :: real

text \<open>
  The \<open>findMany\<close> of \<open>findCompatibleUsers\<close>: the other users of the community, each
  with the likes it received from \<open>userId\<close>.
\<close>

definition communityUsers :: "int \<Rightarrow> User \<Rightarrow> DB \<Rightarrow> (User \<times> Like list) list" where
  "communityUsers userId user db =
     map (\<lambda>u. (u, filter (\<lambda>l. toUserId l = user_id u \<and> fromUserId l = userId) (likes db)))
       (filter (\<lambda>u. communityId u = communityId user \<and> user_id u \<noteq> userId) (users db))"

definition potentialMatches :: "int \<Rightarrow> User \<Rightarrow> DB \<Rightarrow> (User \<times> Like list) list" where
  "potentialMatches userId user db =
     filter (\<lambda>(u, likesReceived). length likesReceived = 0 \<and> traitVector u \<noteq> None)
       (communityUsers userId user db)"

text \<open>
  The \<open>map\<close> over \<open>potentialMatches\<close>. A null \<open>traitVector\<close> would make
  \<open>traitsToVector\<close> throw a \<open>TypeError\<close> on reading a property of null.
\<close>

fun matchesWithScores ::
  "(real \<Rightarrow> real) \<Rightarrow> UserTraits \<Rightarrow> (User \<times> Like list) list \<Rightarrow> error + ScoredUser list"
where
  "matchesWithScores rnd userTraits [] = Inr []"
| "matchesWithScores rnd userTraits ((potentialMatch, likesReceived) # rest) =
     (case traitVector potentialMatch of
        None \<Rightarrow> Inl (Error ''TypeError'')
      | Some matchTraits \<Rightarrow>
          (let similarityScore = calculateUserSimilarity rnd userTraits matchTraits
           in case matchesWithScores rnd userTraits rest of
                Inl e \<Rightarrow> Inl e
              | Inr scored \<Rightarrow>
                  Inr (\<lparr>cand_id = user_id potentialMatch, cand_name = name potentialMatch,
                        cand_bio = bio potentialMatch, similarityScore = similarityScore\<rparr>
                       # scored)))"

text \<open>
  The Candidate Set as the specification words it: the users of the requester's
  community, other than the requester, that the requester has not liked and that
  have a trait profile. \<open>is_score_of\<close> relates a candidate to its scored entry.
\<close>

definition candidate_set :: "int \<Rightarrow> User \<Rightarrow> DB \<Rightarrow> User list" where
  "candidate_set userId user db =
     filter (\<lambda>u. communityId u = communityId user \<and> user_id u \<noteq> userId
                 \<and> like_findUnique userId (user_id u) db = None \<and> traitVector u \<noteq> None)
       (users db)"

definition is_score_of :: "(real \<Rightarrow> real) \<Rightarrow> UserTraits \<Rightarrow> User \<Rightarrow> ScoredUser \<Rightarrow> bool" where
  "is_score_of rnd userTraits u c \<longleftrightarrow>
     (case traitVector u of
        None \<Rightarrow> False
      | Some matchTraits \<Rightarrow>
          c = \<lparr>cand_id = user_id u, cand_name = name u, cand_bio = bio u,
               similarityScore = calculateUserSimilarity rnd userTraits matchTraits\<rparr>)"

text \<open>
  \<open>.sort((a, b) => b.similarityScore - a.similarityScore)\<close>: a stable sort, the
  higher score first. The rounded difference of two doubles has the sign of their
  difference, so the scores are compared as real numbers.
\<close>

definition sort_desc :: "ScoredUser list \<Rightarrow> ScoredUser list" where
  "sort_desc ms = sort_key (\<lambda>m. - similarityScore m) ms"

text \<open>\<open>.slice(0, limit)\<close>: a negative end counts from the end of the array.\<close>

definition slice0 :: "'a list \<Rightarrow> int \<Rightarrow> 'a list" where
  "slice0 xs limit =
     (if limit < 0 then take (nat (int (length xs) + limit)) xs else take (nat limit) xs)"

definition findCompatibleUsers ::
  "(real \<Rightarrow> real) \<Rightarrow> int \<Rightarrow> int \<Rightarrow> DB \<Rightarrow> error + ScoredUser list"
where
  "findCompatibleUsers rnd userId limit db =
     (case user_findUnique userId db of
        None \<Rightarrow> Inl (Error ''User not found'')
      | Some user \<Rightarrow>
          (case traitVector user of
             None \<Rightarrow> Inl (Error ''User does not have trait vector data'')
           | Some userTraits \<Rightarrow>
               (case matchesWithScores rnd userTraits (potentialMatches userId user db) of
                  Inl e \<Rightarrow> Inl e
                | Inr scored \<Rightarrow> Inr (slice0 (sort_desc scored) limit))))"

definition checkMutualLike :: "int \<Rightarrow> int \<Rightarrow> DB \<Rightarrow> bool" where
  "checkMutualLike userAId' userBId' db =
     (let aLikesB = like_findUnique userAId' userBId' db;
          bLikesA = like_findUnique userBId' userAId' db
      in aLikesB \<noteq> None \<and> bLikesA \<noteq> None)"

definition createMatchIfMutualLike :: "int \<Rightarrow> int \<Rightarrow> DB \<Rightarrow> error + (Match option \<times> DB)" where
  "createMatchIfMutualLike userAId' userBId' db =
     (let hasMutualLike = checkMutualLike userAId' userBId' db
      in if \<not> hasMutualLike then Inr (None, db)
         else (case match_findFirst userAId' userBId' db of
                 Some existingMatch \<Rightarrow> Inr (Some existingMatch, db)
               | None \<Rightarrow>
                   (case match_create userAId' userBId' db of
                      Inl e \<Rightarrow> Inl e
                    | Inr (m, db') \<Rightarrow> Inr (Some m, db'))))"


section \<open>The match routes (routes/match)\<close>

text \<open>A reply: its status code and its body.\<close>

datatype body =
    ErrorBody string
  | MatchesBody "ScoredUser list"
  | LikeBody bool bool "int option"
  | UnlikeBody bool bool

datatype reply = Reply nat body

text \<open>
  \<open>GET /potential\<close>. The query is given as read by the handler: \<open>None\<close> when
  \<open>limit\<close> is absent or empty, else the result of \<open>parseInt\<close>, \<open>None\<close> for NaN.
\<close>

definition get_potential :: "(real \<Rightarrow> real) \<Rightarrow> int \<Rightarrow> int option option \<Rightarrow> DB \<Rightarrow> reply" where
  "get_potential rnd id' query_limit db =
     (case (case query_limit of None \<Rightarrow> Some 5 | Some parsed \<Rightarrow> parsed) of
        None \<Rightarrow> Reply 400 (ErrorBody ''Limit must be between 1 and 20'')
      | Some limit \<Rightarrow>
          if limit < 1 \<or> limit > 20
          then Reply 400 (ErrorBody ''Limit must be between 1 and 20'')
          else (case findCompatibleUsers rnd id' limit db of
                  Inl (Error message) \<Rightarrow> Reply 500 (ErrorBody message)
                | Inr potential \<Rightarrow> Reply 200 (MatchesBody potential)))"

text \<open>
  \<open>POST /like\<close>, for the authenticated user \<open>fromUserId\<close> of community
  \<open>userCommunityId\<close>. The body of the 201 reply is \<open>success\<close>, \<open>isMatch\<close> and the
  \<open>id\<close> of the match, or null.
\<close>

definition post_like :: "int \<Rightarrow> int \<Rightarrow> int \<Rightarrow> DB \<Rightarrow> reply \<times> DB" where
  "post_like fromUserId' userCommunityId toUserId' db =
     (if fromUserId' = toUserId' then (Reply 400 (ErrorBody ''Cannot like yourself''), db)
      else case user_findUnique toUserId' db of
        None \<Rightarrow> (Reply 404 (ErrorBody ''User not found''), db)
      | Some toUser \<Rightarrow>
          if communityId toUser \<noteq> userCommunityId
          then (Reply 403 (ErrorBody ''Cannot like users from different communities''), db)
          else (case like_findUnique fromUserId' toUserId' db of
                  Some existingLike \<Rightarrow> (Reply 400 (ErrorBody ''User already liked''), db)
                | None \<Rightarrow>
                    (case like_create fromUserId' toUserId' db of
                       Inl e \<Rightarrow> (Reply 500 (ErrorBody ''Server error creating like''), db)
                     | Inr db1 \<Rightarrow>
                         (case createMatchIfMutualLike fromUserId' toUserId' db1 of
                            Inl e \<Rightarrow> (Reply 500 (ErrorBody ''Server error creating like''), db1)
                          | Inr (match, db2) \<Rightarrow>
                              (Reply 201 (LikeBody True (match \<noteq> None) (map_option match_id match)),
                               db2)))))"

text \<open>
  \<open>DELETE /like/:userId\<close>, for the authenticated user \<open>fromUserId\<close>; the parameter
  is given as \<open>parseInt\<close> returns it, \<open>None\<close> for NaN. The body of the 200 reply is
  \<open>success\<close> and \<open>matchDeleted\<close>.
\<close>

definition delete_like :: "int \<Rightarrow> int option \<Rightarrow> DB \<Rightarrow> reply \<times> DB" where
  "delete_like fromUserId' parsed db =
     (case parsed of
        None \<Rightarrow> (Reply 400 (ErrorBody ''Invalid user ID''), db)
      | Some toUserId' \<Rightarrow>
          (case like_delete fromUserId' toUserId' db of
             Inl e \<Rightarrow> (Reply 404 (ErrorBody ''Like not found''), db)
           | Inr db1 \<Rightarrow>
               (case match_findFirst fromUserId' toUserId' db1 of
                  None \<Rightarrow> (Reply 200 (UnlikeBody True False), db1)
                | Some match \<Rightarrow>
                    (case match_delete (match_id match) db1 of
                       Inl e \<Rightarrow> (Reply 500 (ErrorBody ''Server error deleting like''), db1)
                     | Inr db2 \<Rightarrow> (Reply 200 (UnlikeBody True True), db2)))))"


text \<open>
  The states of the database that the two handlers reach from tables without likes
  and matches, the users being given.
\<close>

inductive reachable :: "DB \<Rightarrow> bool" where
  start: "reachable \<lparr>users = us, likes = [], matches = [], likeSeq = 1, matchSeq = 1\<rparr>"
| liked: "reachable db \<Longrightarrow> reachable (snd (post_like fromUserId' userCommunityId toUserId' db))"
| unliked: "reachable db \<Longrightarrow> reachable (snd (delete_like fromUserId' parsed db))"


section \<open>An example community\<close>

text \<open>
  Community 1 has the users 0, 1, 2 and 3; user 3 has no biography and so no profile;
  user 4 is of community 2. User 0 has liked user 2, and users 1 and 2 have liked
  user 0.
\<close>

definition profile_a :: UserTraits where
  "profile_a = \<lparr>personalityTraits = [(''openness'', 9 / 10)], interests = [''hiking''], values' = []\<rparr>"

definition profile_b :: UserTraits where
  "profile_b = \<lparr>personalityTraits = [(''openness'', 17 / 20)], interests = [''hiking''], values' = []\<rparr>"

definition user0 :: User where
  "user0 = \<lparr>user_id = 0, name = ''Ada'', bio = Some ''hiker'', communityId = 1, traitVector = Some profile_a\<rparr>"

definition user1 :: User where
  "user1 = \<lparr>user_id = 1, name = ''Bo'', bio = Some ''walker'', communityId = 1, traitVector = Some profile_b\<rparr>"

definition user2 :: User where
  "user2 = \<lparr>user_id = 2, name = ''Cy'', bio = Some ''climber'', communityId = 1, traitVector = Some profile_a\<rparr>"

definition user3 :: User where
  "user3 = \<lparr>user_id = 3, name = ''Di'', bio = None, communityId = 1, traitVector = None\<rparr>"

definition user4 :: User where
  "user4 = \<lparr>user_id = 4, name = ''Ed'', bio = Some ''runner'', communityId = 2, traitVector = Some profile_b\<rparr>"

definition example_db :: DB where
  "example_db =
     \<lparr>users = [user0, user1, user2, user3, user4],
      likes = [\<lparr>like_id = 1, fromUserId = 0, toUserId = 2\<rparr>,
               \<lparr>like_id = 2, fromUserId = 1, toUserId = 0\<rparr>,
               \<lparr>like_id = 3, fromUserId = 2, toUserId = 0\<rparr>],
      matches = [],
      likeSeq = 4,
      matchSeq = 1\<rparr>"

text \<open>The same rows once the match of users 0 and 2 is stored, as user 2 initiated it.\<close>

definition matched_db :: DB where
  "matched_db = example_db\<lparr>matches := [\<lparr>match_id = 1, userAId = 2, userBId = 0\<rparr>], matchSeq := 2\<rparr>"


section \<open>An example of ranking\<close>

text \<open>
  Community 7 has the users 0, 1, 2 and 3, and nobody has liked anybody. User 0 hikes;
  user 1 shares no interest with user 0, user 2 shares one interest of four, and
  user 3 has the profile of user 0.
\<close>

definition hiker :: UserTraits where
  "hiker = \<lparr>personalityTraits = [], interests = [''hiking''], values' = []\<rparr>"

definition chess_player :: UserTraits where
  "chess_player = \<lparr>personalityTraits = [], interests = [''chess''], values' = []\<rparr>"

definition all_rounder :: UserTraits where
  "all_rounder = \<lparr>personalityTraits = [], interests = [''hiking'', ''chess'', ''opera'', ''rowing''], values' = []\<rparr>"

definition rank0 :: User where
  "rank0 = \<lparr>user_id = 0, name = ''Flo'', bio = Some ''hiker'', communityId = 7, traitVector = Some hiker\<rparr>"

definition rank1 :: User where
  "rank1 = \<lparr>user_id = 1, name = ''Gus'', bio = Some ''chess'', communityId = 7, traitVector = Some chess_player\<rparr>"

definition rank2 :: User where
  "rank2 = \<lparr>user_id = 2, name = ''Hal'', bio = Some ''everything'', communityId = 7, traitVector = Some all_rounder\<rparr>"

definition rank3 :: User where
  "rank3 = \<lparr>user_id = 3, name = ''Ida'', bio = Some ''hiker too'', communityId = 7, traitVector = Some hiker\<rparr>"

definition ranking_db :: DB where
  "ranking_db = \<lparr>users = [rank0, rank1, rank2, rank3], likes = [], matches = [], likeSeq = 1, matchSeq = 1\<rparr>"


section \<open>Example vectors\<close>

text \<open>
  Two vectors with the same three keys, listed in opposite orders, and a vector with one
  key beside a vector with three. All the weights are doubles between 0 and 1.
\<close>

definition sym_a :: VectorMap where
  "sym_a = [(''personality_p'', 1), (''personality_q'', 1 / 2 ^ 53), (''personality_r'', 1 / 2 ^ 53)]"

definition sym_b :: VectorMap where
  "sym_b = [(''personality_r'', 1), (''personality_q'', 1), (''personality_p'', 1)]"

definition ins_a :: VectorMap where
  "ins_a = [(''personality_q'', 1)]"

definition ins_b :: VectorMap where
  "ins_b = [(''personality_q'', 3 / 2 ^ 29), (''personality_r'', 3 / 4), (''personality_v'', 3 / 2 ^ 29)]"


text \<open>
  Two profiles of one personality trait each. The intensity of \<open>faint\<close> is a double
  between 0 and 1, about \<open>2.5e-162\<close>; its square is below the smallest double.
\<close>

definition faint :: UserTraits where
  "faint = \<lparr>personalityTraits = [(''openness'', 9 / 2 ^ 540)], interests = [], values' = []\<rparr>"

definition plain :: UserTraits where
  "plain = \<lparr>personalityTraits = [(''openness'', 1)], interests = [], values' = []\<rparr>"


section \<open>The keys of the loop\<close>

lemma set_foldl_Set_add: "set (foldl Set_add s xs) = set s \<union> set xs"
  by (induction xs arbitrary: s) (auto simp: Set_add_def)

lemma distinct_foldl_Set_add: "distinct s \<Longrightarrow> distinct (foldl Set_add s xs)"
  by (induction xs arbitrary: s) (auto simp: Set_add_def)

lemma set_new_Set: "set (new_Set xs) = set xs"
  by (simp add: new_Set_def set_foldl_Set_add)

lemma distinct_new_Set: "distinct (new_Set xs)"
  by (simp add: new_Set_def distinct_foldl_Set_add)

lemma set_vector_keys: "set (vector_keys A B) = fst ` set A \<union> fst ` set B"
  by (simp add: vector_keys_def set_new_Set Object_keys_def)

lemma distinct_vector_keys: "distinct (vector_keys A B)"
  by (simp add: vector_keys_def distinct_new_Set)

lemma get_or_zero_outside: "key \<notin> fst ` set v \<Longrightarrow> get_or_zero v key = 0"
  by (simp add: get_or_zero_def map_of_eq_None_iff [THEN iffD2])


section \<open>What the loop computes in exact arithmetic\<close>

text \<open>Exact arithmetic is the rounding \<open>\<lambda>x. x\<close>, the value of \<open>exact\<close>.\<close>

lemma accumulate_sum:
  "distinct keys \<Longrightarrow>
   accumulate (\<lambda>x. x) A B keys (d, a, b) =
     (d + (\<Sum>k\<in>set keys. get_or_zero A k * get_or_zero B k),
      a + (\<Sum>k\<in>set keys. get_or_zero A k * get_or_zero A k),
      b + (\<Sum>k\<in>set keys. get_or_zero B k * get_or_zero B k))"
  by (induction keys arbitrary: d a b) (simp_all add: Let_def algebra_simps)

text \<open>The loop invariant behind the bound: the Cauchy-Schwarz inequality, one key at a time.\<close>

lemma cauchy_step:
  fixes d a b x y :: real
  assumes "d * d \<le> a * b" "0 \<le> a" "0 \<le> b"
  shows "(d + x * y) * (d + x * y) \<le> (a + x * x) * (b + y * y)"
proof -
  let ?m = "2 * x * y * d" and ?s = "a * (y * y) + b * (x * x)"
  have s0: "0 \<le> ?s" using assms by simp
  have "?m\<^sup>2 = 4 * (x * x) * (y * y) * (d * d)"
    by (simp add: power2_eq_square algebra_simps)
  also have "\<dots> \<le> 4 * (x * x) * (y * y) * (a * b)"
    using assms(1) by (intro mult_left_mono) simp_all
  also have "\<dots> \<le> ?s\<^sup>2"
  proof -
    have "0 \<le> (a * (y * y) - b * (x * x))\<^sup>2" by simp
    then show ?thesis by (simp add: power2_eq_square algebra_simps)
  qed
  finally have "?m\<^sup>2 \<le> ?s\<^sup>2" .
  then have "?m \<le> ?s" using s0 by (rule power2_le_imp_le)
  then show ?thesis using assms(1) by (simp add: algebra_simps)
qed

lemma accumulate_invariant:
  "d * d \<le> a * b \<Longrightarrow> 0 \<le> a \<Longrightarrow> 0 \<le> b \<Longrightarrow>
   accumulate (\<lambda>x. x) A B keys (d, a, b) = (d', a', b') \<Longrightarrow>
   d' * d' \<le> a' * b' \<and> 0 \<le> a' \<and> 0 \<le> b'"
proof (induction keys arbitrary: d a b)
  case Nil
  then show ?case by simp
next
  case (Cons key keys)
  let ?x = "get_or_zero A key" and ?y = "get_or_zero B key"
  have "(d + ?x * ?y) * (d + ?x * ?y) \<le> (a + ?x * ?x) * (b + ?y * ?y)"
    using Cons.prems(1-3) by (rule cauchy_step)
  moreover have "0 \<le> a + ?x * ?x" "0 \<le> b + ?y * ?y"
    using Cons.prems(2,3) by simp_all
  moreover have "accumulate (\<lambda>x. x) A B keys (d + ?x * ?y, a + ?x * ?x, b + ?y * ?y) = (d', a', b')"
    using Cons.prems(4) by (simp add: Let_def)
  ultimately show ?case by (rule Cons.IH)
qed

lemma accumulate_nonneg:
  "0 \<le> d \<Longrightarrow> \<forall>k. 0 \<le> get_or_zero A k * get_or_zero B k \<Longrightarrow>
   accumulate (\<lambda>x. x) A B keys (d, a, b) = (d', a', b') \<Longrightarrow> 0 \<le> d'"
proof (induction keys arbitrary: d a b)
  case Nil
  then show ?case by simp
next
  case (Cons key keys)
  have "0 \<le> d + get_or_zero A key * get_or_zero B key"
    using Cons.prems(1,2) by (simp add: add_nonneg_nonneg)
  then show ?case
    using Cons.IH Cons.prems(2,3) by (simp add: Let_def)
qed

lemma vector_sums_eq:
  "vector_sums (\<lambda>x. x) A B =
     (\<Sum>k\<in>fst ` set A \<union> fst ` set B. get_or_zero A k * get_or_zero B k,
      \<Sum>k\<in>fst ` set A \<union> fst ` set B. get_or_zero A k * get_or_zero A k,
      \<Sum>k\<in>fst ` set A \<union> fst ` set B. get_or_zero B k * get_or_zero B k)"
  by (simp add: vector_sums_def accumulate_sum [OF distinct_vector_keys] set_vector_keys)

lemma vector_sums_commute:
  "vector_sums (\<lambda>x. x) A B = (d, a, b) \<Longrightarrow> vector_sums (\<lambda>x. x) B A = (d, b, a)"
  by (auto simp: vector_sums_eq Un_commute mult.commute)

lemma vector_sums_invariant:
  assumes "vector_sums (\<lambda>x. x) A B = (d, a, b)"
  shows "d * d \<le> a * b \<and> 0 \<le> a \<and> 0 \<le> b"
proof -
  have "accumulate (\<lambda>x. x) A B (vector_keys A B) (0, 0, 0) = (d, a, b)"
    using assms by (simp add: vector_sums_def)
  with accumulate_invariant [of 0 0 0 A B "vector_keys A B" d a b]
  show ?thesis by simp
qed

lemma get_or_zero_nonneg:
  "\<forall>(k, v)\<in>set A. 0 \<le> v \<Longrightarrow> 0 \<le> get_or_zero A key"
  by (auto simp: get_or_zero_def split: option.splits dest!: map_of_SomeD)

lemma vector_sums_dot_nonneg:
  assumes "\<forall>(k, v)\<in>set A. 0 \<le> v" "\<forall>(k, v)\<in>set B. 0 \<le> v"
    and "vector_sums (\<lambda>x. x) A B = (d, a, b)"
  shows "0 \<le> d"
proof -
  have "\<forall>k. 0 \<le> get_or_zero A k * get_or_zero B k"
    using assms(1,2) by (simp add: get_or_zero_nonneg)
  moreover have "accumulate (\<lambda>x. x) A B (vector_keys A B) (0, 0, 0) = (d, a, b)"
    using assms(3) by (simp add: vector_sums_def)
  ultimately show ?thesis
    using accumulate_nonneg [of 0 A B "vector_keys A B" 0 0 d a b] by simp
qed

lemma normA_of_eq:
  "normA_of (\<lambda>x. x) A B = (\<Sum>k\<in>fst ` set A. get_or_zero A k * get_or_zero A k)"
proof -
  have "(\<Sum>k\<in>fst ` set A. get_or_zero A k * get_or_zero A k)
      = (\<Sum>k\<in>fst ` set A \<union> fst ` set B. get_or_zero A k * get_or_zero A k)"
    by (rule sum.mono_neutral_left) (auto simp: get_or_zero_outside)
  then show ?thesis by (simp add: normA_of_def vector_sums_eq)
qed

lemma normB_of_eq:
  "normB_of (\<lambda>x. x) A B = (\<Sum>k\<in>fst ` set B. get_or_zero B k * get_or_zero B k)"
proof -
  have "(\<Sum>k\<in>fst ` set B. get_or_zero B k * get_or_zero B k)
      = (\<Sum>k\<in>fst ` set A \<union> fst ` set B. get_or_zero B k * get_or_zero B k)"
    by (rule sum.mono_neutral_left) (auto simp: get_or_zero_outside)
  then show ?thesis by (simp add: normB_of_def vector_sums_eq)
qed


section \<open>What the Vectorizer stores\<close>

lemma map_of_assign: "map_of (assign v key x) = (map_of v)(key \<mapsto> x)"
  by (induction v key x rule: assign.induct) (auto simp: fun_eq_iff)

lemma keys_assign: "fst ` set (assign v key x) = insert key (fst ` set v)"
  by (induction v key x rule: assign.induct) auto

lemma distinct_assign: "distinct (map fst v) \<Longrightarrow> distinct (map fst (assign v key x))"
  by (induction v key x rule: assign.induct) (auto simp: keys_assign)

lemma map_of_fold_assign:
  "map_of (fold (\<lambda>e vector. assign vector (kf e) (vf e)) es v)
     = map_of v ++ map_of (rev (map (\<lambda>e. (kf e, vf e)) es))"
  by (induction es arbitrary: v) (simp_all add: map_of_assign)

lemma distinct_fold_assign:
  "distinct (map fst v) \<Longrightarrow>
   distinct (map fst (fold (\<lambda>e vector. assign vector (kf e) (vf e)) es v))"
  by (induction es arbitrary: v) (simp_all add: distinct_assign)

lemma functional_map_of:
  assumes "functional xs"
  shows "map_of xs k = Some v \<longleftrightarrow> (k, v) \<in> set xs"
proof
  assume "map_of xs k = Some v"
  then show "(k, v) \<in> set xs" by (rule map_of_SomeD)
next
  assume in_xs: "(k, v) \<in> set xs"
  then obtain v' where v': "map_of xs k = Some v'"
    by (auto dest: weak_map_of_SomeI)
  then have "(k, v') \<in> set xs" by (rule map_of_SomeD)
  with in_xs assms have "v = v'" by (auto simp: functional_def)
  with v' show "map_of xs k = Some v" by simp
qed

lemma functional_rev: "functional (rev xs) = functional xs"
  by (simp add: functional_def)

lemma map_of_traitsToVector:
  "map_of (traitsToVector traits) = map_of (rev (feature_entries traits))"
proof -
  have p: "(\<lambda>(trait, v) vector. assign vector (''personality_'' @ trait) v)
         = (\<lambda>e vector. assign vector (''personality_'' @ fst e) (snd e))"
    by (simp add: fun_eq_iff split: prod.splits)
  have q: "(\<lambda>(trait, v). (''personality_'' @ trait, v))
         = (\<lambda>e :: string \<times> real. (''personality_'' @ fst e, snd e))"
    by (simp add: fun_eq_iff split: prod.splits)
  show ?thesis
    unfolding traitsToVector_def feature_entries_def Let_def Object_entries_def p q
    by (simp add: map_of_fold_assign map_of_append rev_map)
qed

lemma distinct_traitsToVector: "distinct (map fst (traitsToVector traits))"
proof -
  have p: "(\<lambda>(trait, v) vector. assign vector (''personality_'' @ trait) v)
         = (\<lambda>e vector. assign vector (''personality_'' @ fst e) (snd e))"
    by (simp add: fun_eq_iff split: prod.splits)
  show ?thesis
    unfolding traitsToVector_def Let_def Object_entries_def p
    by (intro distinct_fold_assign) simp
qed

lemma functional_feature_entries:
  assumes "distinct (map fst (personalityTraits traits))"
  shows "functional (feature_entries traits)"
  unfolding functional_def feature_entries_def
  using assms by (auto dest: eq_key_imp_eq_value)

lemma set_traitsToVector:
  assumes "distinct (map fst (personalityTraits traits))"
  shows "set (traitsToVector traits) = set (feature_entries traits)"
proof -
  have f: "functional (rev (feature_entries traits))"
    using functional_feature_entries [OF assms] by (simp add: functional_rev)
  have "(k, v) \<in> set (traitsToVector traits) \<longleftrightarrow> (k, v) \<in> set (feature_entries traits)" for k v
  proof -
    have "(k, v) \<in> set (traitsToVector traits) \<longleftrightarrow> map_of (traitsToVector traits) k = Some v"
      using distinct_traitsToVector by simp
    also have "\<dots> \<longleftrightarrow> map_of (rev (feature_entries traits)) k = Some v"
      by (simp add: map_of_traitsToVector)
    also have "\<dots> \<longleftrightarrow> (k, v) \<in> set (rev (feature_entries traits))"
      by (rule functional_map_of [OF f])
    finally show ?thesis by simp
  qed
  then show ?thesis by (auto simp del: set_rev)
qed


section \<open>Weights that are zero\<close>

lemma vector_sums_superset:
  assumes "finite U" and "fst ` set A \<union> fst ` set B \<subseteq> U"
  shows "vector_sums (\<lambda>x. x) A B =
     (\<Sum>k\<in>U. get_or_zero A k * get_or_zero B k,
      \<Sum>k\<in>U. get_or_zero A k * get_or_zero A k,
      \<Sum>k\<in>U. get_or_zero B k * get_or_zero B k)"
proof -
  let ?S = "fst ` set A \<union> fst ` set B"
  have "(\<Sum>k\<in>?S. get_or_zero A k * get_or_zero B k) = (\<Sum>k\<in>U. get_or_zero A k * get_or_zero B k)"
    using assms by (intro sum.mono_neutral_left) (auto simp: get_or_zero_outside)
  moreover
  have "(\<Sum>k\<in>?S. get_or_zero A k * get_or_zero A k) = (\<Sum>k\<in>U. get_or_zero A k * get_or_zero A k)"
    using assms by (intro sum.mono_neutral_left) (auto simp: get_or_zero_outside)
  moreover
  have "(\<Sum>k\<in>?S. get_or_zero B k * get_or_zero B k) = (\<Sum>k\<in>U. get_or_zero B k * get_or_zero B k)"
    using assms by (intro sum.mono_neutral_left) (auto simp: get_or_zero_outside)
  ultimately show ?thesis by (simp add: vector_sums_eq)
qed

text \<open>The score depends on a vector through its weights only.\<close>

lemma cosineSimilarity_cong:
  assumes "\<And>k. get_or_zero A k = get_or_zero A' k"
  shows "cosineSimilarity (\<lambda>x. x) A B = cosineSimilarity (\<lambda>x. x) A' B"
proof -
  let ?U = "fst ` set A \<union> fst ` set A' \<union> fst ` set B"
  have "vector_sums (\<lambda>x. x) A B = vector_sums (\<lambda>x. x) A' B"
    by (simp add: vector_sums_superset [of ?U A B] vector_sums_superset [of ?U A' B] assms
          le_supI1 le_supI2)
  then show ?thesis by (simp add: cosineSimilarity_def)
qed

lemma get_or_zero_assign_zero:
  "key \<notin> fst ` set A \<Longrightarrow> get_or_zero (assign A key 0) k = get_or_zero A k"
  by (simp add: get_or_zero_def map_of_assign map_of_eq_None_iff [THEN iffD2])

lemma cosineSimilarity_commute: "cosineSimilarity (\<lambda>x. x) A B = cosineSimilarity (\<lambda>x. x) B A"
proof (cases "vector_sums (\<lambda>x. x) A B")
  case (fields d a b)
  then have "vector_sums (\<lambda>x. x) B A = (d, b, a)" by (rule vector_sums_commute)
  with fields show ?thesis by (auto simp: cosineSimilarity_def mult.commute)
qed

lemma delete_key_entries:
  assumes "distinct (map fst ps)" and "(t, 0) \<in> set ps"
  shows "set (delete_key t ps) = set ps - {(t, 0)}"
  using assms by (auto simp: delete_key_def dest: eq_key_imp_eq_value)

lemma feature_entries_delete:
  assumes "distinct (map fst (personalityTraits P))" and "(t, 0) \<in> set (personalityTraits P)"
  shows "set (feature_entries (P\<lparr>personalityTraits := delete_key t (personalityTraits P)\<rparr>))
           = set (feature_entries P) - {(''personality_'' @ t, 0)}"
  using assms by (auto simp: feature_entries_def delete_key_entries)

lemma get_or_zero_drop_zero:
  assumes v: "map_of v = map_of E" and v': "map_of v' = map_of E'"
    and f: "functional E" and E': "set E' = set E - {(pk, 0)}"
  shows "get_or_zero v k = get_or_zero v' k"
proof -
  have f': "functional E'" using f E' by (auto simp: functional_def)
  show ?thesis
  proof (cases "map_of E k")
    case None
    then have "k \<notin> fst ` set E" by (simp add: map_of_eq_None_iff)
    then have "k \<notin> fst ` set E'" using E' by force
    then have "map_of E' k = None" by (simp add: map_of_eq_None_iff)
    with None show ?thesis by (simp add: get_or_zero_def v v')
  next
    case (Some x)
    then have in_E: "(k, x) \<in> set E" by (rule map_of_SomeD)
    show ?thesis
    proof (cases "(k, x) = (pk, 0)")
      case False
      then have "(k, x) \<in> set E'" using in_E E' by simp
      then have "map_of E' k = Some x" by (simp add: functional_map_of [OF f'])
      with Some show ?thesis by (simp add: get_or_zero_def v v')
    next
      case True
      have "get_or_zero v' k = 0"
      proof (cases "map_of E' k")
        case None
        then show ?thesis by (simp add: get_or_zero_def v')
      next
        case (Some y)
        then have "(k, y) \<in> set E'" by (rule map_of_SomeD)
        then have "(k, y) \<in> set E" using E' by simp
        with in_E f have "y = x" by (auto simp: functional_def)
        with Some True show ?thesis by (simp add: get_or_zero_def v')
      qed
      moreover have "get_or_zero v k = 0" using Some True by (simp add: get_or_zero_def v)
      ultimately show ?thesis by simp
    qed
  qed
qed

lemma get_or_zero_delete_zero_trait:
  assumes "distinct (map fst (personalityTraits P))" and "(t, 0) \<in> set (personalityTraits P)"
  shows "get_or_zero (traitsToVector P) k
       = get_or_zero (traitsToVector (P\<lparr>personalityTraits := delete_key t (personalityTraits P)\<rparr>)) k"
proof (rule get_or_zero_drop_zero)
  show "map_of (traitsToVector P) = map_of (rev (feature_entries P))"
    by (rule map_of_traitsToVector)
  show "map_of (traitsToVector (P\<lparr>personalityTraits := delete_key t (personalityTraits P)\<rparr>))
      = map_of (rev (feature_entries (P\<lparr>personalityTraits := delete_key t (personalityTraits P)\<rparr>)))"
    by (rule map_of_traitsToVector)
  show "functional (rev (feature_entries P))"
    using functional_feature_entries [OF assms(1)] by (simp add: functional_rev)
  show "set (rev (feature_entries (P\<lparr>personalityTraits := delete_key t (personalityTraits P)\<rparr>)))
      = set (rev (feature_entries P)) - {(''personality_'' @ t, 0)}"
    using feature_entries_delete [OF assms] by simp
qed


section \<open>Candidates, scores and their order\<close>

lemma find_filter: "find P xs = (case filter P xs of [] \<Rightarrow> None | x # _ \<Rightarrow> Some x)"
  by (induction xs) auto

lemma no_like_iff:
  "length (filter (\<lambda>l. toUserId l = t \<and> fromUserId l = f) (likes db)) = 0
     \<longleftrightarrow> like_findUnique f t db = None"
  by (auto simp: like_findUnique_def find_None_iff filter_empty_conv)

lemma map_fst_likes_filter:
  "map fst (filter (\<lambda>(u, likesReceived). length likesReceived = 0 \<and> traitVector u \<noteq> None)
          (map (\<lambda>u. (u, filter (\<lambda>l. toUserId l = user_id u \<and> fromUserId l = userId) (likes db))) us))
      = filter (\<lambda>u. like_findUnique userId (user_id u) db = None \<and> traitVector u \<noteq> None) us"
proof (induction us)
  case Nil
  then show ?case by simp
next
  case (Cons u us)
  show ?case
    using Cons.IH no_like_iff [of "user_id u" userId db]
    by (simp del: length_0_conv not_None_eq)
qed

lemma map_fst_potentialMatches:
  "map fst (potentialMatches userId user db) = candidate_set userId user db"
proof -
  have "candidate_set userId user db
      = filter (\<lambda>u. like_findUnique userId (user_id u) db = None \<and> traitVector u \<noteq> None)
          (filter (\<lambda>u. communityId u = communityId user \<and> user_id u \<noteq> userId) (users db))"
    unfolding candidate_set_def filter_filter
    by (rule filter_cong) auto
  then show ?thesis
    unfolding potentialMatches_def communityUsers_def
    by (simp only: map_fst_likes_filter)
qed

lemma matchesWithScores_ok:
  "list_all (\<lambda>u. traitVector u \<noteq> None) (map fst pms) \<Longrightarrow>
   \<exists>scored. matchesWithScores rnd userTraits pms = Inr scored
            \<and> list_all2 (is_score_of rnd userTraits) (map fst pms) scored"
proof (induction pms)
  case Nil
  then show ?case by simp
next
  case (Cons pm pms)
  obtain u ls where pm: "pm = (u, ls)" by (cases pm)
  from Cons.prems pm obtain mt where mt: "traitVector u = Some mt" by auto
  let ?c = "\<lparr>cand_id = user_id u, cand_name = name u, cand_bio = bio u,
             similarityScore = calculateUserSimilarity rnd userTraits mt\<rparr>"
  have c: "is_score_of rnd userTraits u ?c" using mt by (simp add: is_score_of_def)
  from Cons obtain scored where
    s: "matchesWithScores rnd userTraits pms = Inr scored"
    and l: "list_all2 (is_score_of rnd userTraits) (map fst pms) scored"
    by auto
  have "matchesWithScores rnd userTraits (pm # pms) = Inr (?c # scored)"
    using pm mt s by simp
  moreover have "list_all2 (is_score_of rnd userTraits) (map fst (pm # pms)) (?c # scored)"
    using pm c l by simp
  ultimately show ?case by blast
qed

lemma traits_candidate_set: "list_all (\<lambda>u. traitVector u \<noteq> None) (candidate_set userId user db)"
  unfolding candidate_set_def list_all_iff by simp

lemma potentialMatches_scored:
  "\<exists>scored. matchesWithScores rnd userTraits (potentialMatches userId user db) = Inr scored
            \<and> list_all2 (is_score_of rnd userTraits) (candidate_set userId user db) scored"
proof -
  have "list_all (\<lambda>u. traitVector u \<noteq> None) (map fst (potentialMatches userId user db))"
    unfolding map_fst_potentialMatches by (rule traits_candidate_set)
  from matchesWithScores_ok [OF this, of rnd userTraits] show ?thesis
    unfolding map_fst_potentialMatches .
qed

lemma set_slice0: "set (slice0 xs limit) \<subseteq> set xs"
  by (auto simp: slice0_def dest: in_set_takeD)

lemma slice0_all: "int (length xs) \<le> limit \<Longrightarrow> slice0 xs limit = xs"
  by (simp add: slice0_def)

lemma length_slice0: "0 \<le> limit \<Longrightarrow> int (length (slice0 xs limit)) \<le> limit"
  by (simp add: slice0_def)

lemma sorted_sort_desc:
  "sorted_wrt (\<lambda>a b. similarityScore b \<le> similarityScore a) (sort_desc ms)"
proof -
  have "sorted (map (\<lambda>m. - similarityScore m) (sort_desc ms))"
    by (simp add: sort_desc_def)
  then show ?thesis by (simp add: sorted_map)
qed

lemma sorted_slice0:
  "sorted_wrt R xs \<Longrightarrow> sorted_wrt R (slice0 xs limit)"
  by (simp add: slice0_def sorted_wrt_take)

lemma set_sort_desc: "set (sort_desc ms) = set ms"
  by (simp add: sort_desc_def)

lemma length_sort_desc: "length (sort_desc ms) = length ms"
  by (simp add: sort_desc_def)

lemma slice0_one:
  "xs \<noteq> [] \<Longrightarrow> slice0 xs 1 = [hd xs]"
  by (cases xs) (simp_all add: slice0_def)

lemma sort_desc_hd_greatest:
  assumes "ms \<noteq> []" and "c \<in> set ms"
  shows "similarityScore c \<le> similarityScore (hd (sort_desc ms))"
proof -
  have ne: "sort_desc ms \<noteq> []" using assms(1) length_sort_desc [of ms] by auto
  then obtain m rest where s: "sort_desc ms = m # rest" by (cases "sort_desc ms") auto
  have "c \<in> set (sort_desc ms)" using assms(2) by (simp add: set_sort_desc)
  then show ?thesis using sorted_sort_desc [of ms] s by auto
qed


lemma list_all2_rightD:
  "list_all2 P xs ys \<Longrightarrow> y \<in> set ys \<Longrightarrow> \<exists>x\<in>set xs. P x y"
  by (induction rule: list_all2_induct) auto

lemma find_append:
  "find P (xs @ ys) = (case find P xs of None \<Rightarrow> find P ys | Some x \<Rightarrow> Some x)"
  by (induction xs) auto

lemma potentialMatches_other_likes:
  assumes "list_all (\<lambda>l. fromUserId l \<noteq> userId) ls"
  shows "potentialMatches userId user (db\<lparr>likes := likes db @ ls\<rparr>) = potentialMatches userId user db"
proof -
  have "filter (\<lambda>l. toUserId l = t \<and> fromUserId l = userId) ls = []" for t
    using assms by (auto simp: filter_empty_conv list_all_iff)
  then show ?thesis
    by (simp add: potentialMatches_def communityUsers_def)
qed

lemma findCompatibleUsers_other_likes:
  assumes "list_all (\<lambda>l. fromUserId l \<noteq> userId) ls"
  shows "findCompatibleUsers rnd userId limit (db\<lparr>likes := likes db @ ls\<rparr>)
       = findCompatibleUsers rnd userId limit db"
  by (simp add: findCompatibleUsers_def user_findUnique_def
      potentialMatches_other_likes [OF assms] cong: option.case_cong)

lemma findCompatibleUsers_found:
  assumes "user_findUnique userId db = Some user" and "traitVector user = Some userTraits"
    and "matchesWithScores rnd userTraits (potentialMatches userId user db) = Inr scored"
  shows "findCompatibleUsers rnd userId limit db = Inr (slice0 (sort_desc scored) limit)"
  using assms by (simp add: findCompatibleUsers_def)

lemma scored_is_candidate:
  assumes "list_all2 (is_score_of rnd userTraits) (candidate_set userId user db) scored"
    and "c \<in> set scored"
  shows "like_findUnique userId (cand_id c) db = None \<and> cand_id c \<noteq> userId"
proof -
  from list_all2_rightD [OF assms] obtain u
    where u: "u \<in> set (candidate_set userId user db)" and c: "is_score_of rnd userTraits u c"
    by blast
  from c have "cand_id c = user_id u"
    by (auto simp: is_score_of_def split: option.splits)
  moreover from u have "like_findUnique userId (user_id u) db = None \<and> user_id u \<noteq> userId"
    by (simp add: candidate_set_def)
  ultimately show ?thesis by simp
qed

lemma hd_filter_same_key:
  assumes "xs \<noteq> []"
  shows "hd (filter (\<lambda>y. f y = f (hd xs)) xs) = hd xs"
  using assms by (cases xs) simp_all

lemma sort_desc_hd_first:
  assumes "ms \<noteq> []"
  shows "hd (sort_desc ms)
       = hd (filter (\<lambda>c. similarityScore c = similarityScore (hd (sort_desc ms))) ms)"
proof -
  let ?f = "\<lambda>m. - similarityScore m"
  have ne: "sort_desc ms \<noteq> []" using assms length_sort_desc [of ms] by auto
  have "filter (\<lambda>y. ?f y = ?f (hd (sort_desc ms))) (sort_desc ms)
      = filter (\<lambda>y. ?f y = ?f (hd (sort_desc ms))) ms"
    unfolding sort_desc_def by (rule sort_key_stable)
  moreover have "hd (filter (\<lambda>y. ?f y = ?f (hd (sort_desc ms))) (sort_desc ms)) = hd (sort_desc ms)"
    using ne by (rule hd_filter_same_key)
  ultimately show ?thesis by simp
qed

lemmas example_defs = example_db_def user0_def user1_def user2_def user3_def user4_def


section \<open>Likes, matches and the consistency of the rows\<close>

lemma filter_distinct_key:
  "distinct (map f xs) \<Longrightarrow> length (filter (\<lambda>x. f x = y) xs) \<le> 1"
  by (induction xs) (auto simp: filter_empty_conv image_iff)

lemma find_by_distinct_key:
  "distinct (map f xs) \<Longrightarrow> x \<in> set xs \<Longrightarrow> find (\<lambda>y. f y = f x) xs = Some x"
  by (induction xs) (auto simp: image_iff)

lemma distinct_map_remove1:
  "distinct (map f xs) \<Longrightarrow> distinct (map f (remove1 x xs))"
  by (induction xs) (auto dest: set_remove1_subset [THEN subsetD])

lemma remove1_key_gone:
  "distinct (map f xs) \<Longrightarrow> x \<in> set xs \<Longrightarrow> f x \<notin> f ` set (remove1 x xs)"
  by (induction xs) (auto simp: image_iff dest: set_remove1_subset [THEN subsetD])

lemma pair_where_match_pair: "pair_where a b m \<longleftrightarrow> match_pair m = {a, b}"
  by (auto simp: pair_where_def match_pair_def doubleton_eq_iff)

lemma pair_where_commute: "pair_where a b = pair_where b a"
  by (auto simp: pair_where_def fun_eq_iff)

lemma pair_matches_commute: "pair_matches a b db = pair_matches b a db"
  by (simp add: pair_matches_def pair_where_commute [of a b])

lemma match_findFirst_commute: "match_findFirst a b db = match_findFirst b a db"
  by (simp add: match_findFirst_def pair_where_commute [of a b])

lemma checkMutualLike_commute: "checkMutualLike a b db = checkMutualLike b a db"
  by (auto simp: checkMutualLike_def)

lemma checkMutualLike_iff:
  "checkMutualLike a b db \<longleftrightarrow> like_findUnique a b db \<noteq> None \<and> like_findUnique b a db \<noteq> None"
  by (simp add: checkMutualLike_def)

lemma pair_matches_le1:
  assumes "db_consistent db"
  shows "length (pair_matches a b db) \<le> 1"
proof -
  have "distinct (map match_pair (matches db))"
    using assms by (simp add: db_consistent_def)
  then have "length (filter (\<lambda>m. match_pair m = {a, b}) (matches db)) \<le> 1"
    by (rule filter_distinct_key)
  then show ?thesis by (simp add: pair_matches_def pair_where_match_pair [abs_def])
qed

lemma match_findFirst_pair_matches:
  "match_findFirst a b db = (case pair_matches a b db of [] \<Rightarrow> None | m # _ \<Rightarrow> Some m)"
  by (simp add: match_findFirst_def pair_matches_def find_filter)

lemma like_exists_users:
  assumes "db_consistent db" and "like_findUnique f t db = Some l"
  shows "user_findUnique f db \<noteq> None \<and> user_findUnique t db \<noteq> None"
proof -
  from assms(2) have "l \<in> set (likes db)" "fromUserId l = f" "toUserId l = t"
    by (auto simp: like_findUnique_def find_Some_iff)
  moreover have "\<forall>l\<in>set (likes db). user_findUnique (fromUserId l) db \<noteq> None
                     \<and> user_findUnique (toUserId l) db \<noteq> None"
    using assms(1) by (simp add: db_consistent_def list_all_iff)
  ultimately show ?thesis by blast
qed

text \<open>The first call of \<open>createMatchIfMutualLike\<close> for a pair without a match.\<close>

lemma match_create_fresh:
  assumes c: "db_consistent db" and n: "pair_matches a b db = []"
    and ua: "user_findUnique a db \<noteq> None" and ub: "user_findUnique b db \<noteq> None"
  defines "m \<equiv> \<lparr>match_id = matchSeq db, userAId = a, userBId = b\<rparr>"
  defines "db' \<equiv> db\<lparr>matches := matches db @ [m], matchSeq := matchSeq db + 1\<rparr>"
  shows "match_create a b db = Inr (m, db')"
    and "pair_matches a b db' = [m]"
    and "db_consistent db'"
proof -
  have none: "\<forall>x\<in>set (matches db). \<not> pair_where a b x"
    using n by (simp add: pair_matches_def filter_empty_conv)
  then have "find (\<lambda>m. userAId m = a \<and> userBId m = b) (matches db) = None"
    by (auto simp: find_None_iff pair_where_def)
  then show "match_create a b db = Inr (m, db')"
    using ua ub by (simp add: match_create_def m_def db'_def Let_def)
  have pm: "pair_where a b m" by (simp add: pair_where_def m_def)
  then show "pair_matches a b db' = [m]"
    using n by (simp add: pair_matches_def db'_def)
  have fresh_pair: "match_pair m \<notin> match_pair ` set (matches db)"
  proof
    assume "match_pair m \<in> match_pair ` set (matches db)"
    then obtain x where "x \<in> set (matches db)" "match_pair x = match_pair m" by auto
    moreover have "match_pair m = {a, b}" using pm by (simp add: pair_where_match_pair)
    ultimately show False using none by (auto simp: pair_where_match_pair)
  qed
  have below: "\<forall>x\<in>set (matches db). match_id x < matchSeq db"
    using c by (simp add: db_consistent_def list_all_iff)
  then have fresh_id: "match_id m \<notin> match_id ` set (matches db)"
    by (auto simp: m_def)
  have "list_all (\<lambda>x. match_id x < matchSeq db + 1) (matches db)"
    using below by (auto simp: list_all_iff)
  then show "db_consistent db'"
    using c fresh_pair fresh_id
    by (simp add: db_consistent_def db'_def user_findUnique_def m_def)
qed

lemma createMatchIfMutualLike_existing:
  assumes "checkMutualLike a b db" and "pair_matches a b db = m # rest"
  shows "createMatchIfMutualLike a b db = Inr (Some m, db)"
  using assms by (simp add: createMatchIfMutualLike_def match_findFirst_pair_matches)

lemma createMatchIfMutualLike_not_mutual:
  assumes "\<not> checkMutualLike a b db"
  shows "createMatchIfMutualLike a b db = Inr (None, db)"
  using assms by (simp add: createMatchIfMutualLike_def)

lemma createMatchIfMutualLike_mutual:
  assumes c: "db_consistent db" and mutual: "checkMutualLike a b db"
  shows "\<exists>m db'. createMatchIfMutualLike a b db = Inr (Some m, db')
           \<and> pair_matches a b db' = [m]
           \<and> (pair_matches a b db = [] \<longrightarrow>
                 db' = db\<lparr>matches := matches db @ [m], matchSeq := matchSeq db + 1\<rparr>
                 \<and> m = \<lparr>match_id = matchSeq db, userAId = a, userBId = b\<rparr>)
           \<and> (pair_matches a b db \<noteq> [] \<longrightarrow> db' = db)
           \<and> db_consistent db'"
proof (cases "pair_matches a b db")
  case Nil
  from mutual obtain l l' where "like_findUnique a b db = Some l" "like_findUnique b a db = Some l'"
    by (auto simp: checkMutualLike_def)
  then have u: "user_findUnique a db \<noteq> None" "user_findUnique b db \<noteq> None"
    using like_exists_users [OF c] by blast+
  let ?m = "\<lparr>match_id = matchSeq db, userAId = a, userBId = b\<rparr>"
  let ?db' = "db\<lparr>matches := matches db @ [?m], matchSeq := matchSeq db + 1\<rparr>"
  note fresh = match_create_fresh [OF c Nil u]
  have "createMatchIfMutualLike a b db = Inr (Some ?m, ?db')"
    using mutual Nil fresh(1)
    by (simp add: createMatchIfMutualLike_def match_findFirst_pair_matches)
  then show ?thesis using fresh(2,3) Nil by auto
next
  case (Cons m rest)
  moreover have "rest = []" using pair_matches_le1 [OF c, of a b] Cons by simp
  ultimately show ?thesis
    using createMatchIfMutualLike_existing [OF mutual Cons] c by auto
qed


lemma list_all_remove1: "list_all P xs \<Longrightarrow> list_all P (remove1 x xs)"
  by (induction xs) auto

lemma like_delete_found:
  assumes c: "db_consistent db" and l: "like_findUnique a b db = Some l"
  defines "db1 \<equiv> db\<lparr>likes := remove1 l (likes db)\<rparr>"
  shows "like_delete a b db = Inr db1"
    and "like_findUnique a b db1 = None"
    and "db_consistent db1"
proof -
  show "like_delete a b db = Inr db1"
    using l by (simp add: like_delete_def db1_def)
  have d: "distinct (map like_pair (likes db))"
    using c by (simp add: db_consistent_def)
  from l have in_l: "l \<in> set (likes db)" and k: "like_pair l = (a, b)"
    by (auto simp: like_findUnique_def find_Some_iff like_pair_def)
  have gone: "like_pair l \<notin> like_pair ` set (remove1 l (likes db))"
    using d in_l by (rule remove1_key_gone)
  have "\<not> (fromUserId x = a \<and> toUserId x = b)" if x: "x \<in> set (remove1 l (likes db))" for x
  proof
    assume "fromUserId x = a \<and> toUserId x = b"
    then have "like_pair x = like_pair l" using k by (simp add: like_pair_def)
    then have "like_pair l \<in> like_pair ` set (remove1 l (likes db))" using x by (metis imageI)
    with gone show False by contradiction
  qed
  then have "find (\<lambda>l. fromUserId l = a \<and> toUserId l = b) (remove1 l (likes db)) = None"
    unfolding find_None_iff by blast
  then show "like_findUnique a b db1 = None"
    by (simp add: like_findUnique_def db1_def)
  have "list_all (\<lambda>l. user_findUnique (fromUserId l) db \<noteq> None
                     \<and> user_findUnique (toUserId l) db \<noteq> None) (likes db)"
    using c unfolding db_consistent_def by blast
  then have "list_all (\<lambda>l. user_findUnique (fromUserId l) db \<noteq> None
                     \<and> user_findUnique (toUserId l) db \<noteq> None) (remove1 l (likes db))"
    by (rule list_all_remove1)
  moreover have "user_findUnique i db1 = user_findUnique i db" for i
    by (simp add: user_findUnique_def db1_def)
  moreover have "matches db1 = matches db" "matchSeq db1 = matchSeq db"
    "likes db1 = remove1 l (likes db)"
    by (simp_all add: db1_def)
  ultimately show "db_consistent db1"
    using c distinct_map_remove1 [OF d, of l]
    unfolding db_consistent_def by simp
qed

lemma match_delete_found:
  assumes c: "db_consistent db" and p: "pair_matches a b db = [m]"
  defines "db2 \<equiv> db\<lparr>matches := remove1 m (matches db)\<rparr>"
  shows "match_delete (match_id m) db = Inr db2"
    and "pair_matches a b db2 = []"
    and "db_consistent db2"
proof -
  have "m \<in> set (filter (pair_where a b) (matches db))"
    using p by (simp add: pair_matches_def)
  then have in_m: "m \<in> set (matches db)" and pw: "pair_where a b m"
    by simp_all
  have di: "distinct (map match_id (matches db))"
    and dp: "distinct (map match_pair (matches db))"
    using c by (simp_all add: db_consistent_def)
  have "find (\<lambda>x. match_id x = match_id m) (matches db) = Some m"
    using di in_m by (rule find_by_distinct_key)
  then show "match_delete (match_id m) db = Inr db2"
    by (simp add: match_delete_def db2_def)
  have gone: "match_pair m \<notin> match_pair ` set (remove1 m (matches db))"
    using dp in_m by (rule remove1_key_gone)
  have "\<not> pair_where a b x" if x: "x \<in> set (remove1 m (matches db))" for x
  proof
    assume "pair_where a b x"
    then have "match_pair x = match_pair m" using pw by (simp add: pair_where_match_pair)
    then have "match_pair m \<in> match_pair ` set (remove1 m (matches db))" using x by (metis imageI)
    with gone show False by contradiction
  qed
  then have "filter (pair_where a b) (remove1 m (matches db)) = []"
    unfolding filter_empty_conv by blast
  then show "pair_matches a b db2 = []"
    by (simp add: pair_matches_def db2_def)
  have "list_all (\<lambda>x. match_id x < matchSeq db) (matches db)"
    using c unfolding db_consistent_def by blast
  then have "list_all (\<lambda>x. match_id x < matchSeq db) (remove1 m (matches db))"
    by (rule list_all_remove1)
  moreover have "user_findUnique i db2 = user_findUnique i db" for i
    by (simp add: user_findUnique_def db2_def)
  moreover have "likes db2 = likes db" "matchSeq db2 = matchSeq db"
    "matches db2 = remove1 m (matches db)"
    by (simp_all add: db2_def)
  ultimately show "db_consistent db2"
    using c distinct_map_remove1 [OF di, of m] distinct_map_remove1 [OF dp, of m]
    unfolding db_consistent_def by simp
qed

lemma db_consistent_example: "db_consistent example_db"
  by (simp add: db_consistent_def example_defs user_findUnique_def like_pair_def)

lemma db_consistent_matched: "db_consistent matched_db"
  by (simp add: db_consistent_def matched_db_def example_defs user_findUnique_def match_pair_def
      like_pair_def)


text \<open>The handlers keep the rows consistent.\<close>

lemma like_create_consistent:
  assumes c: "db_consistent db" and r: "like_create f t db = Inr db1"
  shows "db_consistent db1"
proof -
  let ?l = "\<lparr>like_id = likeSeq db, fromUserId = f, toUserId = t\<rparr>"
  from r have n: "like_findUnique f t db = None"
    and u: "user_findUnique f db \<noteq> None" "user_findUnique t db \<noteq> None"
    and db1: "db1 = db\<lparr>likes := likes db @ [?l], likeSeq := likeSeq db + 1\<rparr>"
    by (auto simp: like_create_def split: if_splits)
  have "\<forall>x\<in>set (likes db). \<not> (fromUserId x = f \<and> toUserId x = t)"
    using n by (simp add: like_findUnique_def find_None_iff)
  then have "like_pair ?l \<notin> like_pair ` set (likes db)"
    by (auto simp: like_pair_def)
  moreover have "user_findUnique i db1 = user_findUnique i db" for i
    by (simp add: user_findUnique_def db1)
  ultimately show ?thesis
    using c u unfolding db_consistent_def by (simp add: db1)
qed

lemma createMatchIfMutualLike_consistent:
  assumes c: "db_consistent db" and r: "createMatchIfMutualLike a b db = Inr (res, db')"
  shows "db_consistent db'"
proof (cases "checkMutualLike a b db")
  case True
  from createMatchIfMutualLike_mutual [OF c True] r show ?thesis by auto
next
  case False
  from createMatchIfMutualLike_not_mutual [OF False] r c show ?thesis by simp
qed

lemma createMatchIfMutualLike_succeeds:
  assumes c: "db_consistent db"
  shows "\<exists>res db'. createMatchIfMutualLike a b db = Inr (res, db')"
proof (cases "checkMutualLike a b db")
  case True
  from createMatchIfMutualLike_mutual [OF c True] show ?thesis by blast
next
  case False
  from createMatchIfMutualLike_not_mutual [OF False] show ?thesis by blast
qed

lemma post_like_consistent:
  assumes c: "db_consistent db"
  shows "db_consistent (snd (post_like f cid t db))"
proof -
  have "db_consistent (snd (case createMatchIfMutualLike f t db1 of
            Inl e \<Rightarrow> (Reply 500 (ErrorBody ''Server error creating like''), db1)
          | Inr (match, db2) \<Rightarrow>
              (Reply 201 (LikeBody True (match \<noteq> None) (map_option match_id match)), db2)))"
    if "like_create f t db = Inr db1" for db1
  proof -
    have c1: "db_consistent db1" using c that by (rule like_create_consistent)
    show ?thesis
      using c1 createMatchIfMutualLike_consistent [OF c1, of f t]
      by (auto split: sum.splits)
  qed
  then show ?thesis
    using c by (auto simp: post_like_def split: option.splits sum.splits)
qed

lemma delete_like_consistent:
  assumes c: "db_consistent db"
  shows "db_consistent (snd (delete_like f parsed db))"
proof (cases parsed)
  case None
  then show ?thesis using c by (simp add: delete_like_def)
next
  case (Some t)
  show ?thesis
  proof (cases "like_findUnique f t db")
    case None
    then show ?thesis using c Some by (simp add: delete_like_def like_delete_def)
  next
    case (Some l)
    note d1 = like_delete_found [OF c Some]
    let ?db1 = "db\<lparr>likes := remove1 l (likes db)\<rparr>"
    show ?thesis
    proof (cases "pair_matches f t ?db1")
      case Nil
      then show ?thesis
        using d1 \<open>parsed = Some t\<close>
        by (simp add: delete_like_def match_findFirst_pair_matches)
    next
      case (Cons m rest)
      have "rest = []" using pair_matches_le1 [OF d1(3), of f t] Cons by simp
      with Cons have one: "pair_matches f t ?db1 = [m]" by simp
      note d2 = match_delete_found [OF d1(3) one]
      show ?thesis
        using d1(1) d2(1,3) one \<open>parsed = Some t\<close>
        by (simp add: delete_like_def match_findFirst_pair_matches)
    qed
  qed
qed

lemma reachable_consistent: "reachable db \<Longrightarrow> db_consistent db"
proof (induction rule: reachable.induct)
  case (start us)
  show ?case by (simp add: db_consistent_def)
next
  case (liked db f cid t)
  then show ?case by (simp add: post_like_consistent)
next
  case (unliked db f parsed)
  then show ?case by (simp add: delete_like_consistent)
qed

text \<open>Liking in one direction, then in the other.\<close>

lemma post_like_twice:
  assumes c: "db_consistent db" and ne: "a \<noteq> b"
    and ua: "user_findUnique a db = Some ua" and ub: "user_findUnique b db = Some ub"
    and ca: "communityId ua = cid" and cb: "communityId ub = cid"
    and n1: "like_findUnique a b db = None" and n2: "like_findUnique b a db = None"
    and nm: "pair_matches a b db = []"
  shows "\<exists>db1 db2 m.
           post_like a cid b db = (Reply 201 (LikeBody True False None), db1)
         \<and> matches db1 = matches db
         \<and> post_like b cid a db1 = (Reply 201 (LikeBody True True (Some (match_id m))), db2)
         \<and> pair_matches a b db2 = [m]
         \<and> matches db2 = matches db @ [m]"
proof -
  let ?l1 = "\<lparr>like_id = likeSeq db, fromUserId = a, toUserId = b\<rparr>"
  let ?db1 = "db\<lparr>likes := likes db @ [?l1], likeSeq := likeSeq db + 1\<rparr>"
  have lc1: "like_create a b db = Inr ?db1"
    using n1 ua ub by (simp add: like_create_def)
  have c1: "db_consistent ?db1" using c lc1 by (rule like_create_consistent)
  have ba1: "like_findUnique b a ?db1 = None"
    using n2 ne by (simp add: like_findUnique_def find_append)
  then have "\<not> checkMutualLike a b ?db1" by (simp add: checkMutualLike_def)
  then have r1: "createMatchIfMutualLike a b ?db1 = Inr (None, ?db1)"
    by (rule createMatchIfMutualLike_not_mutual)
  have p1: "post_like a cid b db = (Reply 201 (LikeBody True False None), ?db1)"
    using ne ub cb n1 lc1 r1 by (simp add: post_like_def)
  have ab1: "like_findUnique a b ?db1 = Some ?l1"
    using n1 by (simp add: like_findUnique_def find_append)
  have u1: "user_findUnique a ?db1 = Some ua" "user_findUnique b ?db1 = Some ub"
    using ua ub by (simp_all add: user_findUnique_def)
  let ?l2 = "\<lparr>like_id = likeSeq ?db1, fromUserId = b, toUserId = a\<rparr>"
  let ?db1' = "?db1\<lparr>likes := likes ?db1 @ [?l2], likeSeq := likeSeq ?db1 + 1\<rparr>"
  have lc2: "like_create b a ?db1 = Inr ?db1'"
    using ba1 u1 by (simp add: like_create_def)
  have c1': "db_consistent ?db1'" using c1 lc2 by (rule like_create_consistent)
  have "like_findUnique b a ?db1' = Some ?l2"
    using n2 ne by (simp add: like_findUnique_def find_append)
  moreover have "like_findUnique a b ?db1' = Some ?l1"
    using n1 by (simp add: like_findUnique_def find_append)
  ultimately have mutual: "checkMutualLike b a ?db1'" by (simp add: checkMutualLike_def)
  have nm': "pair_matches b a ?db1' = []"
    using nm by (simp add: pair_matches_def pair_where_commute [of b a])
  from createMatchIfMutualLike_mutual [OF c1' mutual] nm' obtain m db2 where
    r2: "createMatchIfMutualLike b a ?db1' = Inr (Some m, db2)"
    and one: "pair_matches b a db2 = [m]"
    and db2: "db2 = ?db1'\<lparr>matches := matches ?db1' @ [m], matchSeq := matchSeq ?db1' + 1\<rparr>"
    by auto
  have p2: "post_like b cid a ?db1 = (Reply 201 (LikeBody True True (Some (match_id m))), db2)"
    using ne u1 ca ba1 lc2 r2 by (simp add: post_like_def)
  have "pair_matches a b db2 = [m]" using one by (simp add: pair_matches_commute)
  moreover have "matches db2 = matches db @ [m]" using db2 by simp
  ultimately show ?thesis using p1 p2 by auto
qed


section \<open>The rounding of doubles\<close>

lemma binade_eqI:
  assumes "2 powi e \<le> \<bar>x\<bar>" and "\<bar>x\<bar> < 2 powi (e + 1)"
  shows "binade x = e"
proof -
  have pos: "0 < \<bar>x\<bar>"
    using assms(1) by (smt (verit) zero_less_power_int)
  have "(2::real) powr real_of_int e = 2 powi e"
    by (rule powr_real_of_int') simp_all
  moreover have "(2::real) powr real_of_int (e + 1) = 2 powi (e + 1)"
    by (rule powr_real_of_int') simp_all
  ultimately have "\<lfloor>log 2 \<bar>x\<bar>\<rfloor> = e"
    using assms pos by (simp only: floor_log_eq_powr_iff [of "\<bar>x\<bar>" 2 e, OF pos] simp_thms)
  then show ?thesis by (simp add: binade_def)
qed

lemma binade_bounds:
  assumes "x \<noteq> 0"
  shows "2 powi binade x \<le> \<bar>x\<bar>" and "\<bar>x\<bar> < 2 powi (binade x + 1)"
proof -
  have pos: "0 < \<bar>x\<bar>" using assms by simp
  have a: "(2::real) powr real_of_int (binade x) = 2 powi binade x"
    by (rule powr_real_of_int') simp_all
  have b: "(2::real) powr real_of_int (binade x + 1) = 2 powi (binade x + 1)"
    by (rule powr_real_of_int') simp_all
  have "2 powr real_of_int (binade x) \<le> \<bar>x\<bar> \<and> \<bar>x\<bar> < 2 powr real_of_int (binade x + 1)"
    using floor_log_eq_powr_iff [of "\<bar>x\<bar>" 2 "binade x", OF pos] by (simp only: binade_def simp_thms)
  then show "2 powi binade x \<le> \<bar>x\<bar>" and "\<bar>x\<bar> < 2 powi (binade x + 1)"
    unfolding a b by simp_all
qed

lemma fl_eqI:
  assumes "2 powi e \<le> \<bar>x\<bar>" and "\<bar>x\<bar> < 2 powi (e + 1)" and "- 1022 \<le> e"
  shows "fl x = of_int (round_half_even (x / 2 powi (e - 52))) * 2 powi (e - 52)"
proof -
  have "x \<noteq> 0" using assms(1) by (smt (verit) zero_less_power_int)
  then show ?thesis
    using assms(3) by (simp add: fl_def ulp_def binade_eqI [OF assms(1,2)] max_def)
qed

lemma fl_0 [simp]: "fl 0 = 0"
  by (simp add: fl_def)

lemma round_half_even_error: "\<bar>of_int (round_half_even q) - q\<bar> \<le> 1 / 2"
  unfolding round_half_even_def Let_def by (auto simp: abs_if) linarith+

lemma round_half_even_above: "of_int n + 1 / 2 < q \<Longrightarrow> n + 1 \<le> round_half_even q"
  using round_half_even_error [of q] by (simp add: abs_if split: if_splits)

lemma round_half_even_ge: "of_int n \<le> q \<Longrightarrow> n \<le> round_half_even q"
  using round_half_even_error [of q] by (simp add: abs_if split: if_splits)

lemma keys_ab: "vector_keys sym_a sym_b = [''personality_p'', ''personality_q'', ''personality_r'']"
  by (simp add: vector_keys_def new_Set_def Set_add_def Object_keys_def sym_a_def sym_b_def)

lemma keys_ba: "vector_keys sym_b sym_a = [''personality_r'', ''personality_q'', ''personality_p'']"
  by (simp add: vector_keys_def new_Set_def Set_add_def Object_keys_def sym_a_def sym_b_def)

lemma fl_1: "fl 1 = 1"
  using fl_eqI [of 0 1] by (simp add: round_half_even_def)

lemma fl_2: "fl 2 = 2"
  using fl_eqI [of 1 2] by (simp add: round_half_even_def)

lemma fl_3: "fl 3 = 3"
  using fl_eqI [of 1 3] by (simp add: round_half_even_def)

text \<open>\<open>2 ^ 53 = 9007199254740992\<close>, \<open>2 ^ 52 = 4503599627370496\<close>, \<open>2 ^ 106 = 81129638414606681695789005144064\<close>, \<open>2 ^ 105 = 40564819207303340847894502572032\<close>.\<close>

lemma fl_half_ulp: "fl (1 / 9007199254740992) = 1 / 9007199254740992"
  using fl_eqI [of "-53" "1 / 9007199254740992"] by (simp add: round_half_even_def)

lemma fl_one_tie: "fl (9007199254740993 / 9007199254740992) = 1"
  using fl_eqI [of 0 "9007199254740993 / 9007199254740992"] by (simp add: round_half_even_def)

lemma fl_ulp: "fl (1 / 4503599627370496) = 1 / 4503599627370496"
  using fl_eqI [of "-52" "1 / 4503599627370496"] by (simp add: round_half_even_def)

lemma fl_one_ulp: "fl (4503599627370497 / 4503599627370496) = 4503599627370497 / 4503599627370496"
  using fl_eqI [of 0 "4503599627370497 / 4503599627370496"] by (simp add: round_half_even_def)

lemma fl_sq: "fl (1 / 81129638414606681695789005144064) = 1 / 81129638414606681695789005144064"
  using fl_eqI [of "-106" "1 / 81129638414606681695789005144064"] by (simp add: round_half_even_def)

lemma fl_one_sq: "fl (81129638414606681695789005144065 / 81129638414606681695789005144064) = 1"
  using fl_eqI [of 0 "81129638414606681695789005144065 / 81129638414606681695789005144064"] by (simp add: round_half_even_def)

lemma fl_two_sq: "fl (1 / 40564819207303340847894502572032) = 1 / 40564819207303340847894502572032"
  using fl_eqI [of "-105" "1 / 40564819207303340847894502572032"] by (simp add: round_half_even_def)

lemma fl_one_two_sq: "fl (40564819207303340847894502572033 / 40564819207303340847894502572032) = 1"
  using fl_eqI [of 0 "40564819207303340847894502572033 / 40564819207303340847894502572032"] by (simp add: round_half_even_def)

lemmas fl_sym = fl_1 fl_2 fl_3 fl_half_ulp fl_one_tie fl_ulp fl_one_ulp fl_sq fl_one_sq
  fl_two_sq fl_one_two_sq

lemma sums_ab: "vector_sums fl sym_a sym_b = (1, 1, 3)"
  unfolding vector_sums_def keys_ab
  by (simp add: get_or_zero_def sym_a_def sym_b_def fl_sym Let_def)

lemma sums_ba: "vector_sums fl sym_b sym_a = (1 + 1 / 2 ^ 52, 3, 1)"
  unfolding vector_sums_def keys_ba
  by (simp add: get_or_zero_def sym_a_def sym_b_def fl_sym Let_def)


lemma fl_error:
  assumes "2 powi e \<le> \<bar>x\<bar>" and "\<bar>x\<bar> < 2 powi (e + 1)" and "- 1022 \<le> e"
  shows "\<bar>fl x - x\<bar> \<le> 2 powi (e - 53)"
proof -
  let ?u = "(2::real) powi (e - 52)"
  have u: "0 < ?u" by simp
  have "fl x - x = (of_int (round_half_even (x / ?u)) - x / ?u) * ?u"
    using u by (simp add: fl_eqI [OF assms] algebra_simps)
  then have "\<bar>fl x - x\<bar> = \<bar>of_int (round_half_even (x / ?u)) - x / ?u\<bar> * ?u"
    using u by (simp add: abs_mult)
  also have "\<dots> \<le> 1 / 2 * ?u"
    using round_half_even_error [of "x / ?u"] u by (intro mult_right_mono) simp_all
  also have "1 / 2 * ?u = 2 powi (e - 53)"
  proof -
    have "(2::real) powi (e - 52) = 2 powi (e - 53 + 1)" by simp
    also have "\<dots> = 2 powi (e - 53) * 2" by (rule power_int_add_1) simp
    finally show ?thesis by simp
  qed
  finally show ?thesis .
qed

lemma sqrt3_bounds: "17 / 10 < sqrt 3" "sqrt 3 < 18 / 10"
proof -
  show "17 / 10 < sqrt 3" by (rule real_less_rsqrt) (simp add: power2_eq_square)
  show "sqrt 3 < 18 / 10" by (rule real_less_lsqrt) (simp_all add: power2_eq_square)
qed

lemma fl_near_one:
  assumes "1 \<le> x" and "x < 2"
  shows "\<bar>fl x - x\<bar> \<le> 1 / 2 ^ 53"
  using fl_error [of 0 x] assms by simp

lemma fl_near_half:
  assumes "1 / 2 \<le> x" and "x < 1"
  shows "\<bar>fl x - x\<bar> \<le> 1 / 2 ^ 54"
  using fl_error [of "-1" x] assms by simp

lemma divisor_bounds:
  "3 / 2 < fl (fl (sqrt 3))" "fl (fl (sqrt 3)) < 2"
proof -
  have e: "(1::real) / 2 ^ 53 \<le> 1 / 10" by simp
  have "\<bar>fl (sqrt 3) - sqrt 3\<bar> \<le> 1 / 2 ^ 53"
    using sqrt3_bounds by (intro fl_near_one) simp_all
  then have s: "16 / 10 < fl (sqrt 3)" "fl (sqrt 3) < 19 / 10"
    using sqrt3_bounds e by linarith+
  then have "\<bar>fl (fl (sqrt 3)) - fl (sqrt 3)\<bar> \<le> 1 / 2 ^ 53"
    by (intro fl_near_one) simp_all
  then show "3 / 2 < fl (fl (sqrt 3))" "fl (fl (sqrt 3)) < 2"
    using s e by linarith+
qed

lemma cos_ab: "cosineSimilarity fl sym_a sym_b = fl (1 / fl (fl (sqrt 3)))"
  by (simp add: cosineSimilarity_def sums_ab fl_1)

lemma cos_ba: "cosineSimilarity fl sym_b sym_a = fl ((1 + 1 / 2 ^ 52) / fl (fl (sqrt 3)))"
  by (simp add: cosineSimilarity_def sums_ba fl_1)

lemma cosineSimilarity_doubles_order:
  "cosineSimilarity fl sym_a sym_b < cosineSimilarity fl sym_b sym_a"
proof -
  let ?D = "fl (fl (sqrt 3))"
  define x where "x = 1 / ?D"
  define y where "y = (1 + 1 / 2 ^ 52) / ?D"
  note D = divisor_bounds
  have x: "1 / 2 < x" "x < 2 / 3"
    using D by (simp_all add: x_def field_simps)
  have y: "y = x + x / 2 ^ 52"
    by (simp add: x_def y_def field_simps)
  have "(1 / 2) / 2 ^ 52 < x / 2 ^ 52"
    using x(1) by (intro divide_strict_right_mono) simp_all
  then have gap: "x + 1 / 2 ^ 53 < y"
    unfolding y by simp
  have "x / 2 ^ 52 \<le> 1 / 4"
    using x(2) by (simp add: field_simps)
  moreover have "(0::real) < 1 / 2 ^ 53" by simp
  ultimately have yb: "1 / 2 \<le> y" "y < 1"
    using x gap y by linarith+
  have h: "(1::real) / 2 ^ 53 = 1 / 2 ^ 54 + 1 / 2 ^ 54" by simp
  have "\<bar>fl x - x\<bar> \<le> 1 / 2 ^ 54"
    using x by (intro fl_near_half) simp_all
  moreover have "\<bar>fl y - y\<bar> \<le> 1 / 2 ^ 54"
    using yb by (rule fl_near_half)
  ultimately have "fl x < fl y"
    using gap h by linarith
  then show ?thesis
    by (simp only: cos_ab cos_ba x_def y_def)
qed


lemma keys_ins: "vector_keys ins_a ins_b = [''personality_q'', ''personality_r'', ''personality_v'']"
  by (simp add: vector_keys_def new_Set_def Set_add_def Object_keys_def ins_a_def ins_b_def)

lemma keys_ins': "vector_keys (assign ins_a ''personality_v'' 0) ins_b
    = [''personality_q'', ''personality_v'', ''personality_r'']"
  by (simp add: vector_keys_def new_Set_def Set_add_def Object_keys_def ins_a_def ins_b_def)

lemma fl_a: "fl (3 / 536870912) = 3 / 536870912"
  using fl_eqI [of "-28" "3 / 536870912"] by (simp add: round_half_even_def)

lemma fl_a_sq: "fl (9 / 288230376151711744) = 9 / 288230376151711744"
  using fl_eqI [of "-55" "9 / 288230376151711744"] by (simp add: round_half_even_def)

lemma fl_n: "fl (9 / 16) = 9 / 16"
  using fl_eqI [of "-1" "9 / 16"] by (simp add: round_half_even_def)

lemma fl_n_absorb: "fl (162129586585337865 / 288230376151711744) = 9 / 16"
  using fl_eqI [of "-1" "162129586585337865 / 288230376151711744"] by (simp add: round_half_even_def)

lemma fl_two_a_sq: "fl (9 / 144115188075855872) = 9 / 144115188075855872"
  using fl_eqI [of "-54" "9 / 144115188075855872"] by (simp add: round_half_even_def)

lemma fl_n_up: "fl (81064793292668937 / 144115188075855872) = 5066549580791809 / 9007199254740992"
  using fl_eqI [of "-1" "81064793292668937 / 144115188075855872"] by (simp add: round_half_even_def)

lemma fl_q: "fl (3 / 4) = 3 / 4"
  using fl_eqI [of "-1" "3 / 4"] by (simp add: round_half_even_def)

lemma fl_r1: "fl (1 / 134217728) = 1 / 134217728"
  using fl_eqI [of "-27" "1 / 134217728"] by (simp add: round_half_even_def)

lemmas fl_ins = fl_1 fl_a fl_a_sq fl_n fl_n_absorb fl_two_a_sq fl_n_up fl_q fl_r1

lemma sums_ins: "vector_sums fl ins_a ins_b = (3 / 2 ^ 29, 1, 9 / 16)"
  unfolding vector_sums_def keys_ins
  by (simp add: get_or_zero_def ins_a_def ins_b_def fl_ins Let_def)

lemma sums_ins': "vector_sums fl (assign ins_a ''personality_v'' 0) ins_b
    = (3 / 2 ^ 29, 1, 9 / 16 + 1 / 2 ^ 53)"
  unfolding vector_sums_def keys_ins'
  by (simp add: get_or_zero_def ins_a_def ins_b_def fl_ins Let_def)


lemma fl_grid_le:
  assumes "2 powi e \<le> \<bar>x\<bar>" and "\<bar>x\<bar> < 2 powi (e + 1)"
    and "of_int m * 2 powi (e - 52) \<le> x" and "- 1022 \<le> e"
  shows "of_int m * 2 powi (e - 52) \<le> fl x"
proof -
  let ?u = "(2::real) powi (e - 52)"
  have u: "0 < ?u" by simp
  have "of_int m \<le> x / ?u" using assms(3) u by (simp add: field_simps)
  then have "m \<le> round_half_even (x / ?u)" by (rule round_half_even_ge)
  then have "of_int m * ?u \<le> of_int (round_half_even (x / ?u)) * ?u"
    using u by (intro mult_right_mono) simp_all
  then show ?thesis by (simp only: fl_eqI [OF assms(1,2,4)])
qed

lemma fl_round_up:
  assumes "2 powi e \<le> \<bar>x\<bar>" and "\<bar>x\<bar> < 2 powi (e + 1)"
    and "(of_int m + 1 / 2) * 2 powi (e - 52) < x" and "- 1022 \<le> e"
  shows "of_int (m + 1) * 2 powi (e - 52) \<le> fl x"
proof -
  let ?u = "(2::real) powi (e - 52)"
  have u: "0 < ?u" by simp
  have "of_int m + 1 / 2 < x / ?u" using assms(3) u by (simp add: field_simps)
  then have "m + 1 \<le> round_half_even (x / ?u)" by (rule round_half_even_above)
  then have "of_int (m + 1) * ?u \<le> of_int (round_half_even (x / ?u)) * ?u"
    using u by (intro mult_right_mono) simp_all
  then show ?thesis by (simp only: fl_eqI [OF assms(1,2,4)])
qed

lemma sqrt_9_16: "sqrt (9 / 16) = 3 / 4"
  by (rule real_sqrt_unique) (simp_all add: power2_eq_square)

lemma sqrt_up_bounds:
  "3 / 4 + 1 / 2 ^ 54 < sqrt (9 / 16 + 1 / 2 ^ 53)" "sqrt (9 / 16 + 1 / 2 ^ 53) < 4 / 5"
proof -
  show "3 / 4 + 1 / 2 ^ 54 < sqrt (9 / 16 + 1 / 2 ^ 53)"
    by (rule real_less_rsqrt) (simp add: power2_eq_square)
  show "sqrt (9 / 16 + 1 / 2 ^ 53) < 4 / 5"
    by (rule real_less_lsqrt) (simp_all add: power2_eq_square)
qed

lemma divisor_up_bounds:
  "3 / 4 + 1 / 2 ^ 53 \<le> fl (fl (sqrt (9 / 16 + 1 / 2 ^ 53)))"
  "fl (fl (sqrt (9 / 16 + 1 / 2 ^ 53))) < 9 / 10"
proof -
  let ?s = "sqrt (9 / 16 + 1 / 2 ^ 53)"
  have e: "(1::real) / 2 ^ 54 \<le> 1 / 100" "(0::real) < 1 / 2 ^ 54" by simp_all
  note b = sqrt_up_bounds
  have in1: "2 powi (- 1) \<le> \<bar>?s\<bar>" "\<bar>?s\<bar> < 2 powi (- 1 + 1)"
    using b e by (simp_all add: power_int_minus) 
  have "of_int (6755399441055744 + 1) * 2 powi (- 1 - 52) \<le> fl ?s"
    using in1
  proof (rule fl_round_up)
    have "(of_int 6755399441055744 + 1 / 2) * 2 powi (- 1 - 52) = (3 / 4 + 1 / 2 ^ 54 :: real)"
      by (simp add: power_int_minus)
    then show "(of_int 6755399441055744 + 1 / 2) * 2 powi (- 1 - 52) < ?s"
      using b(1) by (simp only:)
  qed simp
  moreover have g: "of_int (6755399441055744 + 1) * 2 powi (- 1 - 52) = (3 / 4 + 1 / 2 ^ 53 :: real)"
    by (simp add: power_int_minus)
  ultimately have lo: "3 / 4 + 1 / 2 ^ 53 \<le> fl ?s" by (simp only:)
  have "\<bar>fl ?s - ?s\<bar> \<le> 1 / 2 ^ 54"
    using b e by (intro fl_near_half) linarith+
  then have hi: "fl ?s < 85 / 100" using b(2) e by linarith
  have p: "(0::real) < 1 / 2 ^ 53" by simp
  have in2: "2 powi (- 1) \<le> \<bar>fl ?s\<bar>" "\<bar>fl ?s\<bar> < 2 powi (- 1 + 1)"
    using lo hi p by (simp_all add: power_int_minus)
  have "of_int (6755399441055744 + 1) * 2 powi (- 1 - 52) \<le> fl (fl ?s)"
    using in2
  proof (rule fl_grid_le)
    show "of_int (6755399441055744 + 1) * 2 powi (- 1 - 52) \<le> fl ?s"
      using lo by (simp only: g)
  qed simp
  then show "3 / 4 + 1 / 2 ^ 53 \<le> fl (fl ?s)" by (simp only: g)
  have "\<bar>fl (fl ?s) - fl ?s\<bar> \<le> 1 / 2 ^ 54"
    using lo hi p by (intro fl_near_half) linarith+
  then show "fl (fl ?s) < 9 / 10" using hi e by linarith
qed

lemma cos_ins: "cosineSimilarity fl ins_a ins_b = 1 / 2 ^ 27"
  by (simp add: cosineSimilarity_def sums_ins sqrt_9_16 fl_ins)

lemma cos_ins': "cosineSimilarity fl (assign ins_a ''personality_v'' 0) ins_b
    = fl ((3 / 2 ^ 29) / fl (fl (sqrt (9 / 16 + 1 / 2 ^ 53))))"
proof -
  have "(9 / 16 + 1 / 2 ^ 53 :: real) \<noteq> 0" by simp
  then show ?thesis
    unfolding cosineSimilarity_def sums_ins' by (simp add: fl_1 del: add_divide_eq_if_simps)
qed


lemma zero_weight_doubles_order:
  "''personality_v'' \<notin> fst ` set ins_a
   \<and> cosineSimilarity fl (assign ins_a ''personality_v'' 0) ins_b < cosineSimilarity fl ins_a ins_b"
proof -
  let ?D = "fl (fl (sqrt (9 / 16 + 1 / 2 ^ 53)))"
  define y :: real where "y = (3 / 2 ^ 29) / ?D"
  note D = divisor_up_bounds
  have Dpos: "0 < ?D" using D(1) by (smt (verit) divide_pos_pos zero_less_numeral zero_less_power zero_less_one)
  have lo: "1 / 2 ^ 28 < y"
  proof -
    have "1 / 2 ^ 28 * ?D < 1 / 2 ^ 28 * (9 / 10)"
      using D(2) by (intro mult_strict_left_mono) simp_all
    also have "\<dots> < (3 / 2 ^ 29 :: real)" by simp
    finally show ?thesis using Dpos by (simp add: y_def pos_less_divide_eq)
  qed
  have hi: "y + 1 / 2 ^ 81 < 1 / 2 ^ 27"
  proof -
    have "(3 / 2 ^ 29 :: real) + 1 / 2 ^ 81 * (9 / 10) < 1 / 2 ^ 27 * (3 / 4 + 1 / 2 ^ 53)"
      by simp
    moreover have "1 / 2 ^ 81 * ?D \<le> 1 / 2 ^ 81 * (9 / 10)"
      using D(2) by (intro mult_left_mono) simp_all
    moreover have "1 / 2 ^ 27 * (3 / 4 + 1 / 2 ^ 53) \<le> 1 / 2 ^ 27 * ?D"
      using D(1) by (intro mult_left_mono) simp_all
    ultimately have "3 / 2 ^ 29 + 1 / 2 ^ 81 * ?D < 1 / 2 ^ 27 * ?D" by linarith
    then have "(3 / 2 ^ 29 + 1 / 2 ^ 81 * ?D) / ?D < (1 / 2 ^ 27 * ?D) / ?D"
      using Dpos by (rule divide_strict_right_mono)
    then show ?thesis using Dpos by (simp add: y_def add_divide_distrib)
  qed
  have p: "(0::real) < 1 / 2 ^ 81" by simp
  have "\<bar>fl y - y\<bar> \<le> 2 powi (- 28 - 53)"
  proof (rule fl_error)
    show "2 powi (- 28) \<le> \<bar>y\<bar>" using lo by (simp add: power_int_minus field_simps)
    show "\<bar>y\<bar> < 2 powi (- 28 + 1)" using lo hi p by (simp add: power_int_minus field_simps)
  qed simp
  then have "\<bar>fl y - y\<bar> \<le> 1 / 2 ^ 81" by (simp add: power_int_minus field_simps)
  then have "fl y < 1 / 2 ^ 27" using hi by linarith
  then have "cosineSimilarity fl (assign ins_a ''personality_v'' 0) ins_b
      < cosineSimilarity fl ins_a ins_b"
    by (simp only: cos_ins cos_ins' y_def)
  moreover have "''personality_v'' \<notin> fst ` set ins_a" by (simp add: ins_a_def)
  ultimately show ?thesis by blast
qed


section \<open>The doubles\<close>

text \<open>
  What \<open>fl\<close> returns is a double: an integer of at most 53 bits times a power of 2 that
  is at least \<open>2 ^ - 1074\<close>. The lemmas of this section are about all of them.
\<close>

lemma round_half_even_le: "q \<le> of_int m \<Longrightarrow> round_half_even q \<le> m"
  using round_half_even_error [of q] by (simp add: abs_if split: if_splits)

lemma round_half_even_of_int: "round_half_even (of_int n) = n"
  by (simp add: round_half_even_def)

lemma ulp_pos: "0 < ulp x"
  by (simp add: ulp_def)

lemma two_powi_less: "(2::real) powi a < 2 powi b \<longleftrightarrow> a < b"
proof
  assume l: "(2::real) powi a < 2 powi b"
  show "a < b"
  proof (rule ccontr)
    assume "\<not> a < b"
    then have "b \<le> a" by simp
    then have "(2::real) powi b \<le> 2 powi a" by (rule power_int_increasing) simp
    with l show False by simp
  qed
next
  assume "a < b"
  then show "(2::real) powi a < 2 powi b" by (rule power_int_strict_increasing) simp
qed

lemma two_powi_le: "(2::real) powi a \<le> 2 powi b \<longleftrightarrow> a \<le> b"
  using two_powi_less [of b a] by (simp add: not_less [symmetric] del: not_less)

lemma two_powi_add: "(2::real) powi (a + b) = 2 powi a * 2 powi b"
  by (rule power_int_add) simp

lemma two_powi_nat: "0 \<le> i \<Longrightarrow> (2::real) powi i = of_int (2 ^ nat i)"
  by (simp add: power_int_def)

text \<open>A multiple of \<open>ulp x\<close> rounds to itself.\<close>

lemma fl_multiple:
  assumes "x = of_int n * ulp x"
  shows "fl x = x"
proof (cases "x = 0")
  case True
  then show ?thesis by simp
next
  case False
  have "x / ulp x = of_int n" using assms ulp_pos [of x] by (simp add: field_simps)
  then show ?thesis using False assms by (simp add: fl_def round_half_even_of_int)
qed

lemma ulp_ge: "2 powi (- 1074) \<le> ulp x"
  unfolding ulp_def by (subst two_powi_le) simp

lemma ulp_subnormal:
  assumes "x \<noteq> 0" and "\<bar>x\<bar> < 2 powi (- 1022)"
  shows "ulp x = 2 powi (- 1074)"
proof -
  have "2 powi binade x \<le> \<bar>x\<bar>" using assms(1) by (rule binade_bounds)
  with assms(2) have "(2::real) powi binade x < 2 powi (- 1022)" by simp
  then have "binade x < - 1022" by (simp only: two_powi_less)
  then show ?thesis by (simp add: ulp_def max_def)
qed

lemma ulp_bound:
  assumes "x \<noteq> 0"
  shows "\<bar>x\<bar> < 2 ^ 53 * ulp x"
proof -
  have "\<bar>x\<bar> < 2 powi (binade x + 1)" using assms by (rule binade_bounds)
  also have "(2::real) powi (binade x + 1) \<le> 2 powi (max (binade x) (- 1022) + 1)"
    by (subst two_powi_le) simp
  also have "(2::real) powi (max (binade x) (- 1022) + 1) = 2 powi 53 * 2 powi (max (binade x) (- 1022) - 52)"
  proof -
    have "max (binade x) (- 1022) + 1 = 53 + (max (binade x) (- 1022) - 52)" by simp
    then show ?thesis by (simp only: two_powi_add)
  qed
  finally show ?thesis by (simp add: ulp_def)
qed

lemma fl_eq: "x \<noteq> 0 \<Longrightarrow> fl x = of_int (round_half_even (x / ulp x)) * ulp x"
  by (simp add: fl_def)

lemma round_half_even_abs_le: "\<bar>q\<bar> \<le> of_int m \<Longrightarrow> \<bar>round_half_even q\<bar> \<le> m"
proof -
  assume a: "\<bar>q\<bar> \<le> of_int m"
  then have "q \<le> of_int m" "of_int (- m) \<le> q" by simp_all
  then have "round_half_even q \<le> m" and "- m \<le> round_half_even q"
    by (simp_all add: round_half_even_le round_half_even_ge)
  then show ?thesis by simp
qed

text \<open>Every value of \<open>fl\<close> is a double: an integer below \<open>2 ^ 53\<close> in size, scaled by a power of 2.\<close>

lemma fl_repr: "\<exists>n j. fl x = of_int n * 2 powi j \<and> \<bar>n\<bar> \<le> 2 ^ 53 \<and> - 1074 \<le> j"
proof (cases "x = 0")
  case True
  have "fl x = of_int 0 * 2 powi 0 \<and> \<bar>0::int\<bar> \<le> 2 ^ 53 \<and> - 1074 \<le> (0::int)"
    using True by simp
  then show ?thesis by blast
next
  case False
  let ?n = "round_half_even (x / ulp x)"
  let ?j = "max (binade x) (- 1022) - 52"
  have "\<bar>x / ulp x\<bar> = \<bar>x\<bar> / ulp x" using ulp_pos [of x] by (simp add: abs_divide)
  also have "\<dots> \<le> 2 ^ 53"
    using ulp_bound [OF False] ulp_pos [of x] by (simp add: pos_divide_le_eq)
  finally have "\<bar>x / ulp x\<bar> \<le> of_int (2 ^ 53)" by simp
  then have "\<bar>?n\<bar> \<le> 2 ^ 53" by (rule round_half_even_abs_le)
  moreover have "fl x = of_int ?n * 2 powi ?j" using False by (simp add: fl_def ulp_def)
  moreover have "- 1074 \<le> ?j" by simp
  ultimately show ?thesis by blast
qed

lemma two_powi_split:
  assumes "j \<le> i"
  shows "(2::real) powi i = of_int (2 ^ nat (i - j)) * 2 powi j"
proof -
  have "(2::real) powi ((i - j) + j) = 2 powi (i - j) * 2 powi j" by (rule two_powi_add)
  moreover have "(2::real) powi (i - j) = of_int (2 ^ nat (i - j))"
    using assms by (intro two_powi_nat) simp
  ultimately show ?thesis by simp
qed

text \<open>A double rounds to itself.\<close>

lemma fl_grid:
  assumes n: "\<bar>n\<bar> \<le> 2 ^ 53" and k: "- 1074 \<le> k"
  shows "fl (of_int n * 2 powi k) = of_int n * 2 powi k"
proof (cases "n = 0")
  case True
  then show ?thesis by simp
next
  case False
  let ?x = "real_of_int n * 2 powi k"
  let ?e = "binade ?x"
  let ?j = "max ?e (- 1022) - 52"
  have x0: "?x \<noteq> 0" using False by simp
  have ax: "\<bar>?x\<bar> = of_int \<bar>n\<bar> * 2 powi k" by (simp add: abs_mult)
  have u: "ulp ?x = 2 powi ?j" by (simp only: ulp_def)
  show ?thesis
  proof (cases "?j \<le> k")
    case True
    have "?x = of_int n * (of_int (2 ^ nat (k - ?j)) * 2 powi ?j)"
      using two_powi_split [OF True] by simp
    then have "?x = of_int (n * 2 ^ nat (k - ?j)) * ulp ?x"
      unfolding u by (simp only: of_int_mult mult.assoc)
    then show ?thesis by (rule fl_multiple)
  next
    case False
    with k have e: "?j = ?e - 52" and ke: "k + 53 \<le> ?e" by (simp_all add: max_def split: if_splits)
    have p53: "(2::real) powi 53 = of_int (2 ^ 53)" by simp
    have "(2::real) powi (53 + k) \<le> 2 powi ?e" using ke by (subst two_powi_le) simp
    also have "2 powi ?e \<le> \<bar>?x\<bar>" using x0 by (rule binade_bounds)
    finally have "of_int (2 ^ 53) * 2 powi k \<le> of_int \<bar>n\<bar> * (2::real) powi k"
      by (simp only: ax two_powi_add p53)
    then have "real_of_int (2 ^ 53) \<le> of_int \<bar>n\<bar>"
      by (rule mult_right_le_imp_le) simp
    then have "2 ^ 53 \<le> \<bar>n\<bar>" by (simp only: of_int_le_iff)
    with n have a: "\<bar>n\<bar> = 2 ^ 53" by simp
    have "\<bar>?x\<bar> = of_int (2 ^ 53) * 2 powi k" by (simp only: ax a)
    also have "\<dots> = 2 powi (53 + k)" by (simp only: two_powi_add p53)
    finally have ax': "\<bar>?x\<bar> = 2 powi (k + 53)" by (simp only: add.commute)
    then have "\<bar>?x\<bar> < 2 powi (k + 53 + 1)" by (simp only: two_powi_less)
    with ax' have "?e = k + 53" by (intro binade_eqI) simp_all
    then have j: "?j = k + 1" using e by simp
    have "even \<bar>n\<bar>" unfolding a by simp
    then have "even n" by simp
    then obtain m where m: "n = 2 * m" by (auto elim: evenE)
    have "(2::real) powi (k + 1) = 2 powi k * 2" using two_powi_add [of k 1] by simp
    then have xm: "?x = of_int m * 2 powi (k + 1)" by (simp add: m)
    have "?x = of_int m * ulp ?x" by (rule trans [OF xm]) (simp only: u j)
    then show ?thesis by (rule fl_multiple)
  qed
qed

lemma fl_idem: "fl (fl x) = fl x"
proof -
  from fl_repr [of x] obtain n j where
    "fl x = of_int n * 2 powi j" "\<bar>n\<bar> \<le> 2 ^ 53" "- 1074 \<le> j" by blast
  then show ?thesis by (simp only: fl_grid)
qed

text \<open>No double other than 0 is smaller in size than \<open>2 ^ - 1074\<close>.\<close>

lemma fl_min:
  assumes "fl x \<noteq> 0"
  shows "2 powi (- 1074) \<le> \<bar>fl x\<bar>"
proof -
  let ?n = "round_half_even (x / ulp x)"
  have x0: "x \<noteq> 0" using assms by auto
  then have f: "fl x = of_int ?n * ulp x" by (rule fl_eq)
  with assms have "?n \<noteq> 0" by auto
  then have "1 \<le> \<bar>?n\<bar>" by simp
  then have "(1::real) \<le> of_int \<bar>?n\<bar>" by (simp only: of_int_1_le_iff)
  then have l: "1 * ulp x \<le> of_int \<bar>?n\<bar> * ulp x"
    using ulp_pos [of x] by (intro mult_right_mono) simp_all
  have a: "of_int \<bar>?n\<bar> * ulp x = \<bar>fl x\<bar>"
    unfolding f using ulp_pos [of x] by (simp add: abs_mult)
  have "2 powi (- 1074) \<le> ulp x" by (rule ulp_ge)
  also have "\<dots> = 1 * ulp x" by (simp only: mult_1)
  also note l
  also note a
  finally show ?thesis .
qed

text \<open>Rounding does not cross a power of 2 that is a double.\<close>

lemma fl_ge_pow2:
  assumes i: "- 1074 \<le> i" and x: "2 powi i \<le> x"
  shows "2 powi i \<le> fl x"
proof -
  let ?j = "max (binade x) (- 1022) - 52"
  let ?n = "round_half_even (x / ulp x)"
  have xp: "0 < x" using x by (smt (verit) zero_less_power_int)
  then have x0: "x \<noteq> 0" by simp
  have u: "ulp x = 2 powi ?j" by (simp only: ulp_def)
  have f: "fl x = of_int ?n * ulp x" using x0 by (rule fl_eq)
  have up: "0 < ulp x" by (rule ulp_pos)
  have m: "of_int m * ulp x \<le> fl x" if "of_int m * ulp x \<le> x" for m
  proof -
    from that have "of_int m \<le> x / ulp x" using up by (simp add: pos_le_divide_eq)
    then have "m \<le> ?n" by (rule round_half_even_ge)
    then have "real_of_int m \<le> of_int ?n" by simp
    then show ?thesis unfolding f using up by (intro mult_right_mono) simp_all
  qed
  show ?thesis
  proof (cases "?j \<le> i")
    case True
    have s: "(2::real) powi i = of_int (2 ^ nat (i - ?j)) * ulp x"
      unfolding u using True by (rule two_powi_split)
    show ?thesis using x unfolding s by (rule m)
  next
    case False
    with i have e: "?j = binade x - 52" by (simp add: max_def split: if_splits)
    have "2 powi binade x \<le> \<bar>x\<bar>" using x0 by (rule binade_bounds)
    moreover have "(2::real) powi binade x = of_int (2 ^ nat (binade x - ?j)) * 2 powi ?j"
      by (rule two_powi_split) (simp add: e)
    ultimately have "of_int (2 ^ nat (binade x - ?j)) * ulp x \<le> x"
      using xp by (simp add: u)
    then have l: "of_int (2 ^ nat (binade x - ?j)) * ulp x \<le> fl x" by (rule m)
    have "(2::real) powi i \<le> 2 powi ?j"
      using False by (subst two_powi_le) simp
    also have "\<dots> = 1 * ulp x" by (simp only: u mult_1)
    also have "\<dots> \<le> of_int (2 ^ nat (binade x - ?j)) * ulp x"
      using up by (intro mult_right_mono) simp_all
    also note l
    finally show ?thesis .
  qed
qed

lemma fl_nonpos: "x \<le> 0 \<Longrightarrow> fl x \<le> 0"
proof (cases "x = 0")
  case True
  then show ?thesis by simp
next
  case False
  assume "x \<le> 0"
  then have "x / ulp x \<le> of_int 0" using ulp_pos [of x] by (simp add: divide_le_0_iff)
  then have "round_half_even (x / ulp x) \<le> 0" by (rule round_half_even_le)
  then have "real_of_int (round_half_even (x / ulp x)) * ulp x \<le> 0"
    using ulp_pos [of x] by (simp add: mult_le_0_iff)
  then show ?thesis using False by (simp add: fl_def)
qed

lemma fl_le_pow2:
  assumes i: "- 1074 \<le> i" and x: "x \<le> 2 powi i"
  shows "fl x \<le> 2 powi i"
proof (cases "x \<le> 0")
  case True
  then have "fl x \<le> 0" by (rule fl_nonpos)
  moreover have "(0::real) \<le> 2 powi i" by simp
  ultimately show ?thesis by (rule order_trans)
next
  case False
  let ?j = "max (binade x) (- 1022) - 52"
  let ?n = "round_half_even (x / ulp x)"
  from False have xp: "0 < x" by simp
  then have x0: "x \<noteq> 0" by simp
  have u: "ulp x = 2 powi ?j" by (simp only: ulp_def)
  have f: "fl x = of_int ?n * ulp x" using x0 by (rule fl_eq)
  have up: "0 < ulp x" by (rule ulp_pos)
  have "2 powi binade x \<le> \<bar>x\<bar>" using x0 by (rule binade_bounds)
  with x xp have "(2::real) powi binade x \<le> 2 powi i" by simp
  then have "binade x \<le> i" by (simp only: two_powi_le)
  with i have ji: "?j \<le> i" by simp
  have s: "(2::real) powi i = of_int (2 ^ nat (i - ?j)) * ulp x"
    unfolding u using ji by (rule two_powi_split)
  from x have "x / ulp x \<le> of_int (2 ^ nat (i - ?j))"
    unfolding s using up by (simp add: pos_divide_le_eq)
  then have "?n \<le> 2 ^ nat (i - ?j)" by (rule round_half_even_le)
  then have "real_of_int ?n \<le> of_int (2 ^ nat (i - ?j))" by (simp only: of_int_le_iff)
  then show ?thesis unfolding f s using up by (intro mult_right_mono) simp_all
qed

lemma sqrt_two_powi: "sqrt (2 powi (2 * i)) = 2 powi i"
proof (rule real_sqrt_unique)
  show "(2 powi i)\<^sup>2 = (2::real) powi (2 * i)"
    using two_powi_add [of i i] by (simp add: power2_eq_square)
  show "(0::real) \<le> 2 powi i" by simp
qed

text \<open>
  The divisor of \<open>cosineSimilarity\<close>: the square root of a double that is not 0 is at
  least \<open>2 ^ - 537\<close>, and the product of two such roots is at least \<open>2 ^ - 1074\<close>.
\<close>

lemma fl_divisor_nonzero:
  assumes "fl a = a" and "fl b = b" and "0 < a" and "0 < b"
  shows "fl (fl (sqrt a) * fl (sqrt b)) \<noteq> 0"
proof -
  have r: "2 powi (- 537) \<le> fl (sqrt c)" if "fl c = c" "0 < c" for c
  proof -
    have "2 powi (- 1074) \<le> \<bar>fl c\<bar>" using that by (intro fl_min) simp
    then have "2 powi (2 * (- 537)) \<le> c" using that by simp
    then have "sqrt (2 powi (2 * (- 537))) \<le> sqrt c" by (simp only: real_sqrt_le_iff)
    then have "2 powi (- 537) \<le> sqrt c" by (simp only: sqrt_two_powi)
    then show ?thesis by (intro fl_ge_pow2) simp_all
  qed
  have "(2::real) powi (- 537) * 2 powi (- 537) \<le> fl (sqrt a) * fl (sqrt b)"
    using r [OF assms(1,3)] r [OF assms(2,4)] by (intro mult_mono) simp_all
  moreover have "(2::real) powi (- 537) * 2 powi (- 537) = 2 powi (- 1074)"
    using two_powi_add [of "- 537" "- 537"] by simp
  ultimately have "2 powi (- 1074) \<le> fl (sqrt a) * fl (sqrt b)" by simp
  then have "2 powi (- 1074) \<le> fl (fl (sqrt a) * fl (sqrt b))"
    by (intro fl_ge_pow2) simp_all
  moreover have "(0::real) < 2 powi (- 1074)" by simp
  ultimately show ?thesis by linarith
qed

text \<open>
  Adding at most 1 to a sum that is at most \<open>2 ^ 53\<close> gives at most \<open>2 ^ 53\<close> again:
  \<open>2 ^ 53 + 1\<close> is a tie, and it goes down to the even significand.
\<close>

lemma fl_le_2_53:
  assumes "x \<le> 2 ^ 53 + 1"
  shows "fl x \<le> 2 ^ 53"
proof (cases "x \<le> 2 ^ 53")
  case True
  then have "x \<le> 2 powi 53" by simp
  then have "fl x \<le> 2 powi 53" by (intro fl_le_pow2) simp_all
  then show ?thesis by simp
next
  case False
  then have lo: "2 ^ 53 < x" by simp
  have "fl x = of_int (round_half_even (x / 2 powi (53 - 52))) * 2 powi (53 - 52)"
    using lo assms by (intro fl_eqI) simp_all
  then have f: "fl x = of_int (round_half_even (x / 2)) * 2" by simp
  have "\<lfloor>x / 2\<rfloor> = 2 ^ 52"
    using lo assms by (intro floor_unique) simp_all
  moreover have "\<not> 1 / 2 < x / 2 - 2 ^ 52" using assms by simp
  ultimately have "round_half_even (x / 2) = 2 ^ 52"
    by (simp add: round_half_even_def Let_def)
  then show ?thesis by (simp add: f)
qed

lemma get_or_zero_le_1:
  "\<forall>(k, v)\<in>set A. v \<le> 1 \<Longrightarrow> get_or_zero A key \<le> 1"
  by (auto simp: get_or_zero_def split: option.splits dest!: map_of_SomeD)

text \<open>
  With weights between 0 and 1 the three sums of the loop never pass \<open>2 ^ 53\<close>, far
  below the largest double.
\<close>

lemma accumulate_le_2_53:
  assumes A: "\<And>k. 0 \<le> get_or_zero A k \<and> get_or_zero A k \<le> 1"
    and B: "\<And>k. 0 \<le> get_or_zero B k \<and> get_or_zero B k \<le> 1"
  shows "d \<le> 2 ^ 53 \<Longrightarrow> a \<le> 2 ^ 53 \<Longrightarrow> b \<le> 2 ^ 53 \<Longrightarrow>
         accumulate fl A B keys (d, a, b) = (d', a', b') \<Longrightarrow>
         d' \<le> 2 ^ 53 \<and> a' \<le> 2 ^ 53 \<and> b' \<le> 2 ^ 53"
proof (induction keys arbitrary: d a b)
  case Nil
  then show ?case by simp
next
  case (Cons key keys)
  have p: "fl (x * y) \<le> 1" if "0 \<le> x \<and> x \<le> 1" "0 \<le> y \<and> y \<le> 1" for x y
  proof -
    have "x * y \<le> 1 * 1" using that by (intro mult_mono) simp_all
    then have "x * y \<le> 2 powi 0" by simp
    then have "fl (x * y) \<le> 2 powi 0" by (intro fl_le_pow2) simp_all
    then show ?thesis by simp
  qed
  have s: "fl (c + fl (x * y)) \<le> 2 ^ 53"
    if "c \<le> 2 ^ 53" "0 \<le> x \<and> x \<le> 1" "0 \<le> y \<and> y \<le> 1" for c x y
    using that(1) p [OF that(2,3)] by (intro fl_le_2_53) simp
  from Cons.prems(4) have acc: "accumulate fl A B keys
      (fl (d + fl (get_or_zero A key * get_or_zero B key)),
       fl (a + fl (get_or_zero A key * get_or_zero A key)),
       fl (b + fl (get_or_zero B key * get_or_zero B key))) = (d', a', b')"
    by (simp add: Let_def)
  show ?case
    by (rule Cons.IH [OF _ _ _ acc]) (intro s Cons.prems A B)+
qed


section \<open>What holds for every rounding\<close>

lemma accumulate_swap:
  "accumulate rnd A B keys (d, a, b) = (d', a', b') \<Longrightarrow>
   accumulate rnd B A keys (d, b, a) = (d', b', a')"
proof (induction keys arbitrary: d a b)
  case Nil
  then show ?case by simp
next
  case (Cons key keys)
  then show ?case by (simp add: Let_def mult.commute)
qed

lemma cosineSimilarity_same_order:
  assumes "vector_keys A B = vector_keys B A"
  shows "cosineSimilarity rnd A B = cosineSimilarity rnd B A"
proof (cases "vector_sums rnd A B")
  case (fields d a b)
  then have "accumulate rnd B A (vector_keys A B) (0, 0, 0) = (d, b, a)"
    unfolding vector_sums_def by (rule accumulate_swap)
  then have "vector_sums rnd B A = (d, b, a)"
    by (simp add: vector_sums_def assms)
  with fields show ?thesis
    by (auto simp: cosineSimilarity_def mult.commute)
qed

lemma accumulate_normA_zero:
  assumes "rnd 0 = 0" and "\<forall>k\<in>set keys. get_or_zero A k = 0"
  shows "fst (snd (accumulate rnd A B keys (d, 0, b))) = 0"
  using assms(2)
proof (induction keys arbitrary: d b)
  case Nil
  then show ?case by simp
next
  case (Cons key keys)
  then show ?case by (simp add: Let_def assms(1))
qed

lemma get_or_zero_Nil [simp]: "get_or_zero [] k = 0"
  by (simp add: get_or_zero_def)

lemma normA_of_Nil: "rnd 0 = 0 \<Longrightarrow> normA_of rnd [] B = 0"
  unfolding normA_of_def vector_sums_def
  by (rule accumulate_normA_zero) simp_all

lemma accumulate_normB_zero:
  assumes "rnd 0 = 0" and "\<forall>k\<in>set keys. get_or_zero B k = 0"
  shows "snd (snd (accumulate rnd A B keys (d, a, 0))) = 0"
  using assms(2)
proof (induction keys arbitrary: d a)
  case Nil
  then show ?case by simp
next
  case (Cons key keys)
  then show ?case by (simp add: Let_def assms(1))
qed

lemma normB_of_Nil: "rnd 0 = 0 \<Longrightarrow> normB_of rnd A [] = 0"
  unfolding normB_of_def vector_sums_def
  by (rule accumulate_normB_zero) simp_all

lemma cosineSimilarity_norm_zero:
  "normA_of rnd A B = 0 \<or> normB_of rnd A B = 0 \<Longrightarrow> cosineSimilarity rnd A B = 0"
  by (auto simp: cosineSimilarity_def normA_of_def normB_of_def split: prod.splits)

lemma fl_nonneg: "0 \<le> x \<Longrightarrow> 0 \<le> fl x"
proof (cases "x = 0")
  case True
  then show ?thesis by simp
next
  case False
  assume "0 \<le> x"
  have u: "0 < ulp x" by (simp add: ulp_def)
  have "of_int 0 \<le> x / ulp x" using \<open>0 \<le> x\<close> u by simp
  then have "0 \<le> round_half_even (x / ulp x)" by (rule round_half_even_ge)
  then show ?thesis using False u by (simp add: fl_def)
qed

lemma accumulate_nonneg_rnd:
  assumes r: "\<And>x. 0 \<le> x \<Longrightarrow> 0 \<le> rnd x"
    and v: "\<And>k. 0 \<le> get_or_zero A k" "\<And>k. 0 \<le> get_or_zero B k"
  shows "0 \<le> d \<Longrightarrow> accumulate rnd A B keys (d, a, b) = (d', a', b') \<Longrightarrow> 0 \<le> d'"
proof (induction keys arbitrary: d a b)
  case Nil
  then show ?case by simp
next
  case (Cons key keys)
  have "0 \<le> rnd (d + rnd (get_or_zero A key * get_or_zero B key))"
    using Cons.prems(1) v r by (intro r add_nonneg_nonneg mult_nonneg_nonneg)
  then show ?case
    using Cons.IH Cons.prems(2) by (simp add: Let_def)
qed

lemma accumulate_norms_nonneg_rnd:
  assumes r: "\<And>x. 0 \<le> x \<Longrightarrow> 0 \<le> rnd x"
  shows "0 \<le> a \<Longrightarrow> 0 \<le> b \<Longrightarrow> accumulate rnd A B keys (d, a, b) = (d', a', b') \<Longrightarrow>
         0 \<le> a' \<and> 0 \<le> b'"
proof (induction keys arbitrary: d a b)
  case Nil
  then show ?case by simp
next
  case (Cons key keys)
  have "0 \<le> rnd (a + rnd (get_or_zero A key * get_or_zero A key))"
    "0 \<le> rnd (b + rnd (get_or_zero B key * get_or_zero B key))"
    using Cons.prems(1,2) r by (intro r add_nonneg_nonneg; simp)+
  then show ?case
    using Cons.IH Cons.prems(3) by (simp add: Let_def)
qed

lemma cosineSimilarity_nonneg_rnd:
  assumes r: "\<And>x. 0 \<le> x \<Longrightarrow> 0 \<le> rnd x"
    and "\<forall>(k, v)\<in>set A. 0 \<le> v" and "\<forall>(k, v)\<in>set B. 0 \<le> v"
  shows "0 \<le> cosineSimilarity rnd A B"
proof (cases "vector_sums rnd A B")
  case (fields d a b)
  then have acc: "accumulate rnd A B (vector_keys A B) (0, 0, 0) = (d, a, b)"
    by (simp add: vector_sums_def)
  have "0 \<le> d"
    using accumulate_nonneg_rnd [of rnd A B 0 "vector_keys A B" 0 0 d a b] r acc
      get_or_zero_nonneg [OF assms(2)] get_or_zero_nonneg [OF assms(3)]
    by simp
  moreover have "0 \<le> a \<and> 0 \<le> b"
    using accumulate_norms_nonneg_rnd [of rnd 0 0 A B "vector_keys A B" 0 d a b] r acc by simp
  ultimately have "0 \<le> rnd (d / rnd (rnd (sqrt a) * rnd (sqrt b)))"
    by (intro r divide_nonneg_nonneg mult_nonneg_nonneg) simp_all
  then show ?thesis using fields by (simp add: cosineSimilarity_def)
qed


text \<open>
  A key that both vectors lack, or that only the second one gets, adds three zeros
  to sums that are rounded already: it changes nothing, whatever the rounding.
\<close>

lemma accumulate_append:
  "accumulate rnd A B (xs @ ys) acc = accumulate rnd A B ys (accumulate rnd A B xs acc)"
proof (induction xs arbitrary: acc)
  case Nil
  then show ?case by simp
next
  case (Cons x xs)
  obtain d a b where acc: "acc = (d, a, b)" by (cases acc)
  show ?case unfolding acc by (simp add: Let_def Cons.IH)
qed

lemma accumulate_cong_keys:
  assumes "\<forall>k\<in>set keys. get_or_zero A k = get_or_zero A' k \<and> get_or_zero B k = get_or_zero B' k"
  shows "accumulate rnd A B keys acc = accumulate rnd A' B' keys acc"
  using assms
proof (induction keys arbitrary: acc)
  case Nil
  then show ?case by simp
next
  case (Cons x xs)
  obtain d a b where acc: "acc = (d, a, b)" by (cases acc)
  show ?case unfolding acc using Cons by (simp add: Let_def)
qed

lemma accumulate_rounded:
  assumes i: "\<And>x. rnd (rnd x) = rnd x"
    and "rnd d = d" and "rnd a = a" and "rnd b = b"
    and "accumulate rnd A B keys (d, a, b) = (d', a', b')"
  shows "rnd d' = d' \<and> rnd a' = a' \<and> rnd b' = b'"
  using assms(2-)
proof (induction keys arbitrary: d a b)
  case Nil
  then show ?case by simp
next
  case (Cons x xs)
  from Cons.prems(4) show ?case
    by (simp add: Let_def) (rule Cons.IH [rotated 3], assumption, (rule i)+)
qed

lemma accumulate_zero_key:
  assumes z: "rnd 0 = 0" and "get_or_zero A k = 0" and "get_or_zero B k = 0"
    and "rnd d = d" and "rnd a = a" and "rnd b = b"
  shows "accumulate rnd A B [k] (d, a, b) = (d, a, b)"
  using assms by (simp add: Let_def)

lemma foldl_Set_add_insert:
  "key \<notin> set ys \<Longrightarrow>
   \<exists>r. foldl Set_add (s1 @ key # s2) ys = s1 @ key # r \<and> foldl Set_add (s1 @ s2) ys = s1 @ r"
proof (induction ys arbitrary: s2)
  case Nil
  then show ?case by simp
next
  case (Cons y ys)
  then have k: "key \<notin> set ys" and ne: "y \<noteq> key" by auto
  show ?case
  proof (cases "y \<in> set (s1 @ s2)")
    case True
    then have "Set_add (s1 @ key # s2) y = s1 @ key # s2" "Set_add (s1 @ s2) y = s1 @ s2"
      by (auto simp: Set_add_def)
    then show ?thesis using Cons.IH [OF k, of s2] by simp
  next
    case False
    then have "Set_add (s1 @ key # s2) y = s1 @ key # (s2 @ [y])"
      "Set_add (s1 @ s2) y = s1 @ (s2 @ [y])"
      using ne by (auto simp: Set_add_def)
    then show ?thesis using Cons.IH [OF k, of "s2 @ [y]"] by simp
  qed
qed

lemma Object_keys_assign:
  "key \<notin> fst ` set A \<Longrightarrow> Object_keys (assign A key v) = Object_keys A @ [key]"
  by (induction A) (auto simp: Object_keys_def)

lemma vector_sums_rounded:
  assumes "rnd 0 = 0" and "\<And>x. rnd (rnd x) = rnd x"
    and "accumulate rnd A B keys (0, 0, 0) = (d, a, b)"
  shows "rnd d = d \<and> rnd a = a \<and> rnd b = b"
  using assms(2) assms(1) assms(1) assms(1) assms(3) by (rule accumulate_rounded)

lemma vector_sums_assign_first:
  assumes z: "rnd 0 = 0" and i: "\<And>x. rnd (rnd x) = rnd x"
    and nA: "key \<notin> fst ` set A" and nB: "key \<notin> fst ` set B"
  shows "vector_sums rnd (assign A key 0) B = vector_sums rnd A B"
proof -
  let ?A = "assign A key 0"
  have nk: "key \<notin> set (Object_keys B)" using nB by (simp add: Object_keys_def)
  have ns: "key \<notin> set (new_Set (Object_keys A))"
    using nA by (simp add: set_new_Set Object_keys_def)
  have s: "foldl Set_add [] (Object_keys A @ [key]) = new_Set (Object_keys A) @ [key]"
    using ns by (simp add: new_Set_def Set_add_def)
  obtain r where r: "foldl Set_add (new_Set (Object_keys A) @ key # []) (Object_keys B)
                       = new_Set (Object_keys A) @ key # r"
      "foldl Set_add (new_Set (Object_keys A) @ []) (Object_keys B) = new_Set (Object_keys A) @ r"
    using foldl_Set_add_insert [OF nk, of "new_Set (Object_keys A)" "[]"] by blast
  have "vector_keys ?A B = foldl Set_add (foldl Set_add [] (Object_keys A @ [key])) (Object_keys B)"
    by (simp add: vector_keys_def new_Set_def Object_keys_assign [OF nA])
  then have k': "vector_keys ?A B = new_Set (Object_keys A) @ [key] @ r"
    unfolding s using r(1) by simp
  have k: "vector_keys A B = new_Set (Object_keys A) @ r"
    using r(2) by (simp add: vector_keys_def new_Set_def)
  have c: "accumulate rnd ?A B ks acc = accumulate rnd A B ks acc" for ks acc
    by (rule accumulate_cong_keys) (simp add: get_or_zero_assign_zero [OF nA])
  obtain d a b where m: "accumulate rnd A B (new_Set (Object_keys A)) (0, 0, 0) = (d, a, b)"
    by (cases "accumulate rnd A B (new_Set (Object_keys A)) (0, 0, 0)")
  have f: "rnd d = d \<and> rnd a = a \<and> rnd b = b"
    using z i m by (rule vector_sums_rounded)
  have "accumulate rnd A B [key] (d, a, b) = (d, a, b)"
    using z get_or_zero_outside [OF nA] get_or_zero_outside [OF nB] f
    by (intro accumulate_zero_key) simp_all
  then show ?thesis
    unfolding vector_sums_def k k' c by (simp only: accumulate_append m)
qed

lemma vector_sums_assign_second:
  assumes z: "rnd 0 = 0" and i: "\<And>x. rnd (rnd x) = rnd x"
    and nA: "key \<notin> fst ` set A"
  shows "vector_sums rnd B (assign A key 0) = vector_sums rnd B A"
proof -
  let ?A = "assign A key 0"
  let ?ks = "vector_keys B A"
  have k': "vector_keys B ?A = Set_add ?ks key"
    by (simp add: vector_keys_def new_Set_def Object_keys_assign [OF nA])
  have c: "accumulate rnd B ?A ks acc = accumulate rnd B A ks acc" for ks acc
    by (rule accumulate_cong_keys) (simp add: get_or_zero_assign_zero [OF nA])
  show ?thesis
  proof (cases "key \<in> set ?ks")
    case True
    then show ?thesis unfolding vector_sums_def k' c by (simp add: Set_add_def)
  next
    case False
    then have nB: "key \<notin> fst ` set B" by (simp add: set_vector_keys)
    obtain d a b where m: "accumulate rnd B A ?ks (0, 0, 0) = (d, a, b)"
      by (cases "accumulate rnd B A ?ks (0, 0, 0)")
    have f: "rnd d = d \<and> rnd a = a \<and> rnd b = b"
      using z i m by (rule vector_sums_rounded)
    have "accumulate rnd B A [key] (d, a, b) = (d, a, b)"
      using z get_or_zero_outside [OF nB] get_or_zero_outside [OF nA] f
      by (intro accumulate_zero_key) simp_all
    then show ?thesis
      unfolding vector_sums_def k' c using False by (simp only: Set_add_def if_False accumulate_append m)
  qed
qed

lemma cosineSimilarity_assign_zero_rnd:
  assumes "rnd 0 = 0" and "\<And>x. rnd (rnd x) = rnd x" and "key \<notin> fst ` set A"
  shows "cosineSimilarity rnd B (assign A key 0) = cosineSimilarity rnd B A"
    and "key \<notin> fst ` set B \<Longrightarrow> cosineSimilarity rnd (assign A key 0) B = cosineSimilarity rnd A B"
  using assms by (simp_all add: cosineSimilarity_def vector_sums_assign_first vector_sums_assign_second)


text \<open>The two norms the loop returns are doubles, so the divisor does not vanish.\<close>

lemma norms_divisor_nonzero:
  assumes "normA_of fl A B \<noteq> 0" and "normB_of fl A B \<noteq> 0"
  shows "fl (fl (sqrt (normA_of fl A B)) * fl (sqrt (normB_of fl A B))) \<noteq> 0"
proof -
  obtain d a b where s: "accumulate fl A B (vector_keys A B) (0, 0, 0) = (d, a, b)"
    by (cases "accumulate fl A B (vector_keys A B) (0, 0, 0)")
  have n: "normA_of fl A B = a" "normB_of fl A B = b"
    by (simp_all add: normA_of_def normB_of_def vector_sums_def s)
  have r: "fl d = d \<and> fl a = a \<and> fl b = b"
    using fl_0 fl_idem s by (rule vector_sums_rounded)
  have p: "0 \<le> a \<and> 0 \<le> b"
    using accumulate_norms_nonneg_rnd [of fl 0 0 A B "vector_keys A B" 0 d a b] fl_nonneg s
    by simp
  show ?thesis
    unfolding n using r p assms [unfolded n] by (intro fl_divisor_nonzero) simp_all
qed


section \<open>The bounds of the score\<close>

text \<open>
  When every weight stored in the two vectors is non-negative, the score lies between
  0 and 1 in exact arithmetic, and is not negative in doubles.
\<close>

lemma cosineSimilarity_bounds:
  assumes "\<forall>(k, v)\<in>set A. 0 \<le> v" and "\<forall>(k, v)\<in>set B. 0 \<le> v"
  shows "0 \<le> cosineSimilarity exact A B \<and> cosineSimilarity exact A B \<le> 1
         \<and> 0 \<le> cosineSimilarity fl A B"
proof -
  have "0 \<le> cosineSimilarity (\<lambda>x. x) A B \<and> cosineSimilarity (\<lambda>x. x) A B \<le> 1"
  proof -
    obtain d a b where s: "vector_sums (\<lambda>x. x) A B = (d, a, b)"
      by (cases "vector_sums (\<lambda>x. x) A B") auto
    have inv: "d * d \<le> a * b" "0 \<le> a" "0 \<le> b"
      using vector_sums_invariant [OF s] by simp_all
    have d0: "0 \<le> d"
      using vector_sums_dot_nonneg [OF assms s] .
    show ?thesis
    proof (cases "a = 0 \<or> b = 0")
      case True
      then show ?thesis using s by (auto simp: cosineSimilarity_def)
    next
      case False
      then have pos: "0 < sqrt a * sqrt b"
        using inv(2,3) by simp
      have "d\<^sup>2 \<le> a * b" using inv(1) by (simp add: power2_eq_square)
      then have "d \<le> sqrt (a * b)" by (rule real_le_rsqrt)
      then have "d \<le> sqrt a * sqrt b" by (simp add: real_sqrt_mult)
      then have "d / (sqrt a * sqrt b) \<le> 1" using pos by simp
      moreover have "0 \<le> d / (sqrt a * sqrt b)" using d0 pos by simp
      ultimately show ?thesis using s False by (simp add: cosineSimilarity_def)
    qed
  qed
  moreover have "0 \<le> cosineSimilarity fl A B"
    using assms by (intro cosineSimilarity_nonneg_rnd fl_nonneg)
  ultimately show ?thesis by (simp add: exact_def)
qed

text \<open>
  Where a square underflows the norm is too small. For a weight of \<open>9 / 2 ^ 540\<close>
  against a weight of 1 the score in doubles is \<open>9 / 8\<close>.
\<close>

lemma fl_subnormal_eqI:
  assumes "x \<noteq> 0" and "\<bar>x\<bar> < 2 powi (- 1022)"
  shows "fl x = of_int (round_half_even (x / 2 powi (- 1074))) * 2 powi (- 1074)"
  by (simp only: fl_eq [OF assms(1)] ulp_subnormal [OF assms])

lemma vector_sums_single:
  "vector_sums rnd [(k, a)] [(k, b)]
     = (rnd (0 + rnd (a * b)), rnd (0 + rnd (a * a)), rnd (0 + rnd (b * b)))"
  by (simp add: vector_sums_def vector_keys_def new_Set_def Set_add_def Object_keys_def
      get_or_zero_def Let_def)

lemma cosineSimilarity_underflow:
  assumes t: "t = 9 / 2 ^ 540"
  shows "cosineSimilarity fl [(k, t)] [(k, 1)] = 9 / 8"
proof -
  define l :: real where "l = 1 / 2 ^ 1074"
  define r :: real where "r = 1 / 2 ^ 537"
  have t0: "t \<noteq> 0" and l0: "l \<noteq> 0" by (simp_all add: t l_def)
  have ft: "fl t = t"
    using fl_grid [of 9 "- 540"] by (simp add: t power_int_minus)
  have fl1: "fl l = l"
    using fl_grid [of 1 "- 1074"] by (simp add: l_def power_int_minus)
  have fr: "fl r = r"
    using fl_grid [of 1 "- 537"] by (simp add: r_def power_int_minus)
  have f98: "fl (9 / 8) = 9 / 8"
    using fl_grid [of 9 "- 3"] by (simp add: power_int_minus)
  have ftt: "fl (t * t) = l"
  proof -
    have a: "fl (t * t) = of_int (round_half_even (t * t / 2 powi (- 1074))) * 2 powi (- 1074)"
      by (rule fl_subnormal_eqI) (simp_all add: t power_int_minus)
    have b: "t * t / 2 powi (- 1074) = 81 / 64" by (simp add: t power_int_minus)
    have c: "round_half_even (81 / 64) = 1" by (simp add: round_half_even_def)
    have d: "real_of_int 1 * 2 powi (- 1074) = l" by (simp add: l_def power_int_minus)
    show ?thesis by (simp only: a b c d)
  qed
  have sl: "sqrt l = r"
    unfolding l_def r_def by (rule real_sqrt_unique) (simp_all add: power2_eq_square)
  have tr: "t / r = 9 / 8" by (simp add: t r_def)
  have s: "vector_sums fl [(k, t)] [(k, 1)] = (t, l, 1)"
    unfolding vector_sums_single by (simp add: ft ftt fl1 fl_1)
  show ?thesis
    unfolding cosineSimilarity_def s using l0 by (simp add: sl fr fl_1 tr f98)
qed

lemma cosineSimilarity_parallel:
  assumes "0 < a" and "0 < b"
  shows "cosineSimilarity (\<lambda>x. x) [(k, a)] [(k, b)] = 1"
proof -
  have "sqrt (a * a) = a" "sqrt (b * b) = b" using assms by simp_all
  then show ?thesis
    unfolding cosineSimilarity_def vector_sums_single using assms by simp
qed

lemma faint_vector: "t = 9 / 2 ^ 540 \<Longrightarrow> traitsToVector faint = [(''personality_openness'', t)]"
  by (simp add: traitsToVector_def Object_entries_def faint_def)

lemma plain_vector: "traitsToVector plain = [(''personality_openness'', 1)]"
  by (simp add: traitsToVector_def Object_entries_def plain_def)


section \<open>The scores of the example ranking\<close>

lemmas ranking_defs = ranking_db_def rank0_def rank1_def rank2_def rank3_def

lemma fl_4: "fl 4 = 4"
  using fl_eqI [of 2 4] by (simp add: round_half_even_def)

lemma fl_half: "fl (1 / 2) = 1 / 2"
  using fl_eqI [of "-1" "1 / 2"] by (simp add: round_half_even_def)

lemma score_chess: "calculateUserSimilarity fl hiker chess_player = 0"
  by (simp add: calculateUserSimilarity_def traitsToVector_def Object_entries_def hiker_def chess_player_def
      cosineSimilarity_def vector_sums_def vector_keys_def new_Set_def Set_add_def Object_keys_def
      get_or_zero_def Let_def fl_1)

lemma score_all: "calculateUserSimilarity fl hiker all_rounder = 1 / 2"
  by (simp add: calculateUserSimilarity_def traitsToVector_def Object_entries_def hiker_def all_rounder_def
      cosineSimilarity_def vector_sums_def vector_keys_def new_Set_def Set_add_def Object_keys_def
      get_or_zero_def Let_def fl_1 fl_2 fl_3 fl_4 fl_half)

lemma score_hiker: "calculateUserSimilarity fl hiker hiker = 1"
  by (simp add: calculateUserSimilarity_def traitsToVector_def Object_entries_def hiker_def
      cosineSimilarity_def vector_sums_def vector_keys_def new_Set_def Set_add_def Object_keys_def
      get_or_zero_def Let_def fl_1)

lemma ranking_scored:
  "matchesWithScores fl hiker (potentialMatches 0 rank0 ranking_db)
     = Inr [\<lparr>cand_id = 1, cand_name = ''Gus'', cand_bio = Some ''chess'', similarityScore = 0\<rparr>,
            \<lparr>cand_id = 2, cand_name = ''Hal'', cand_bio = Some ''everything'', similarityScore = 1 / 2\<rparr>,
            \<lparr>cand_id = 3, cand_name = ''Ida'', cand_bio = Some ''hiker too'', similarityScore = 1\<rparr>]"
  by (simp add: potentialMatches_def communityUsers_def ranking_defs score_chess score_all score_hiker)


section \<open>Properties of the Similarity Engine\<close>

text \<open>
  C7. In exact arithmetic the score of two vectors of non-negative weights lies between
  0 and 1 (\<open>cosineSimilarity_bounds\<close>), and the documentation of \<open>cosineSimilarity\<close>
  and of \<open>calculateUserSimilarity\<close> says as much: \<open>@returns Similarity score between 0
  and 1\<close>. In doubles the code returns \<open>9 / 8\<close> for the profiles \<open>faint\<close> and
  \<open>plain\<close>, whose intensities lie between 0 and 1 and whose exact score is 1. The
  square of \<open>9 / 2 ^ 540\<close> is \<open>81 / 64\<close> of the smallest double \<open>1 / 2 ^ 1074\<close> and
  rounds to it, so the loop leaves \<open>1 / 2 ^ 1074\<close> in \<open>normA\<close>; its square root is
  \<open>1 / 2 ^ 537\<close>, the dot product is \<open>9 / 2 ^ 540\<close>, and their quotient is \<open>9 / 8\<close>.
\<close>

theorem calculateUserSimilarity_underflow:
  "list_all (\<lambda>(trait, v). 0 \<le> v \<and> v \<le> 1) (personalityTraits faint)
   \<and> list_all (\<lambda>(trait, v). 0 \<le> v \<and> v \<le> 1) (personalityTraits plain)
   \<and> calculateUserSimilarity exact faint plain = 1
   \<and> calculateUserSimilarity fl faint plain = 9 / 8"
proof -
  have w: "list_all (\<lambda>(trait, v). 0 \<le> v \<and> v \<le> 1) (personalityTraits faint)"
    "list_all (\<lambda>(trait, v). 0 \<le> v \<and> v \<le> 1) (personalityTraits plain)"
    by (simp_all add: faint_def plain_def)
  define t :: real where "t = 9 / 2 ^ 540"
  have v: "traitsToVector faint = [(''personality_openness'', t)]"
    using t_def by (rule faint_vector)
  have "0 < t" by (simp add: t_def)
  then have "cosineSimilarity (\<lambda>x. x) [(''personality_openness'', t)] [(''personality_openness'', 1)] = 1"
    by (intro cosineSimilarity_parallel) simp_all
  moreover have "cosineSimilarity fl [(''personality_openness'', t)] [(''personality_openness'', 1)] = 9 / 8"
    using t_def by (rule cosineSimilarity_underflow)
  ultimately have "calculateUserSimilarity exact faint plain = 1
      \<and> calculateUserSimilarity fl faint plain = 9 / 8"
    by (simp only: calculateUserSimilarity_def Let_def v plain_vector exact_def simp_thms)
  with w show ?thesis by (intro conjI) simp_all
qed

text \<open>
  C8. When the loop leaves exactly zero in \<open>normA\<close> or \<open>normB\<close>,
  \<open>cosineSimilarity\<close> returns exactly 0, whatever the rounding; so it does for an
  empty vector against any vector, under a rounding that keeps 0, as \<open>fl\<close> does. In
  exact arithmetic \<open>normA\<close> and \<open>normB\<close> are the squared norms of the two arguments.
  Where the function does divide, the divisor is not zero, in exact arithmetic and in
  doubles.
\<close>

theorem cosineSimilarity_zero_norm:
  "(normA_of rnd A B = 0 \<or> normB_of rnd A B = 0 \<longrightarrow> cosineSimilarity rnd A B = 0)
   \<and> (rnd 0 = 0 \<longrightarrow>
        cosineSimilarity rnd [] B = 0 \<and> cosineSimilarity rnd A [] = 0
        \<and> cosineSimilarity rnd [] [] = 0)
   \<and> fl 0 = 0
   \<and> normA_of exact A B = (\<Sum>k\<in>fst ` set A. get_or_zero A k * get_or_zero A k)
   \<and> normB_of exact A B = (\<Sum>k\<in>fst ` set B. get_or_zero B k * get_or_zero B k)
   \<and> (normA_of exact A B \<noteq> 0 \<and> normB_of exact A B \<noteq> 0 \<longrightarrow>
        exact (exact (sqrt (normA_of exact A B)) * exact (sqrt (normB_of exact A B))) \<noteq> 0)
   \<and> (normA_of fl A B \<noteq> 0 \<and> normB_of fl A B \<noteq> 0 \<longrightarrow>
        fl (fl (sqrt (normA_of fl A B)) * fl (sqrt (normB_of fl A B))) \<noteq> 0)"
proof -
  have z: "normA_of rnd A B = 0 \<or> normB_of rnd A B = 0 \<longrightarrow> cosineSimilarity rnd A B = 0"
    using cosineSimilarity_norm_zero [of rnd A B] by blast
  have e: "cosineSimilarity rnd [] B = 0 \<and> cosineSimilarity rnd A [] = 0
        \<and> cosineSimilarity rnd [] [] = 0" if "rnd 0 = 0"
    using that normA_of_Nil [of rnd] normB_of_Nil [of rnd] cosineSimilarity_norm_zero [of rnd]
    by blast
  have n: "normA_of exact A B = (\<Sum>k\<in>fst ` set A. get_or_zero A k * get_or_zero A k)"
    "normB_of exact A B = (\<Sum>k\<in>fst ` set B. get_or_zero B k * get_or_zero B k)"
    unfolding exact_def by (rule normA_of_eq normB_of_eq)+
  have d: "normA_of exact A B \<noteq> 0 \<and> normB_of exact A B \<noteq> 0 \<longrightarrow>
        exact (exact (sqrt (normA_of exact A B)) * exact (sqrt (normB_of exact A B))) \<noteq> 0"
    by (simp add: exact_def)
  have f: "normA_of fl A B \<noteq> 0 \<and> normB_of fl A B \<noteq> 0 \<longrightarrow>
        fl (fl (sqrt (normA_of fl A B)) * fl (sqrt (normB_of fl A B))) \<noteq> 0"
    using norms_divisor_nonzero by blast
  show ?thesis using z e n d f fl_0 by blast
qed

theorem cosineSimilarity_zero_norm_witness:
  "fl 0 = 0
   \<and> normA_of fl [] [(''interest_x'', 1)] = 0
   \<and> cosineSimilarity fl [] [(''interest_x'', 1)] = 0
   \<and> cosineSimilarity fl [] [] = 0
   \<and> normA_of exact [(''interest_x'', 1)] [(''interest_x'', 1)] \<noteq> 0
   \<and> normB_of exact [(''interest_x'', 1)] [(''interest_x'', 1)] \<noteq> 0
   \<and> normA_of fl [(''interest_x'', 1)] [(''interest_x'', 1)] \<noteq> 0
   \<and> normB_of fl [(''interest_x'', 1)] [(''interest_x'', 1)] \<noteq> 0
   \<and> fl (fl (sqrt (normA_of fl [(''interest_x'', 1)] [(''interest_x'', 1)]))
           * fl (sqrt (normB_of fl [(''interest_x'', 1)] [(''interest_x'', 1)]))) \<noteq> 0"
proof -
  have k: "vector_keys [(''interest_x'', 1)] [(''interest_x'', 1)] = [''interest_x'']"
    by (simp add: vector_keys_def new_Set_def Set_add_def Object_keys_def)
  have s: "vector_sums fl [(''interest_x'', 1)] [(''interest_x'', 1)] = (1, 1, 1)"
    "vector_sums exact [(''interest_x'', 1)] [(''interest_x'', 1)] = (1, 1, 1)"
    unfolding vector_sums_def k by (simp_all add: get_or_zero_def fl_1 exact_def)
  have n0: "normA_of fl [] [(''interest_x'', 1)] = 0"
    by (simp add: normA_of_Nil)
  have n: "normA_of exact [(''interest_x'', 1)] [(''interest_x'', 1)] \<noteq> 0"
    "normB_of exact [(''interest_x'', 1)] [(''interest_x'', 1)] \<noteq> 0"
    "normA_of fl [(''interest_x'', 1)] [(''interest_x'', 1)] \<noteq> 0"
    "normB_of fl [(''interest_x'', 1)] [(''interest_x'', 1)] \<noteq> 0"
    by (simp_all add: normA_of_def normB_of_def s)
  show ?thesis
    using n0 n cosineSimilarity_zero_norm [of fl "[]" "[(''interest_x'', 1)]"]
      cosineSimilarity_zero_norm [of fl "[(''interest_x'', 1)]" "[(''interest_x'', 1)]"]
    by blast
qed

text \<open>
  C9, as amended. In exact arithmetic \<open>cosineSimilarity\<close> is symmetric in its two
  arguments, for all vectors. Under any rounding the two calls return the same number
  when they visit the keys in the same order, as they do for two vectors that list the
  same keys in the same order.
\<close>

theorem cosineSimilarity_symmetric:
  "cosineSimilarity exact A B = cosineSimilarity exact B A
   \<and> (vector_keys A B = vector_keys B A \<longrightarrow>
        cosineSimilarity rnd A B = cosineSimilarity rnd B A)"
  using cosineSimilarity_commute [of A B] cosineSimilarity_same_order [of A B rnd]
  by (simp add: exact_def)

theorem cosineSimilarity_symmetric_witness:
  "vector_keys [(''personality_openness'', 9 / 10), (''interest_hiking'', 1)]
               [(''personality_openness'', 17 / 20), (''interest_hiking'', 1)]
     = vector_keys [(''personality_openness'', 17 / 20), (''interest_hiking'', 1)]
                   [(''personality_openness'', 9 / 10), (''interest_hiking'', 1)]
   \<and> cosineSimilarity fl [(''personality_openness'', 9 / 10), (''interest_hiking'', 1)]
                          [(''personality_openness'', 17 / 20), (''interest_hiking'', 1)]
     = cosineSimilarity fl [(''personality_openness'', 17 / 20), (''interest_hiking'', 1)]
                          [(''personality_openness'', 9 / 10), (''interest_hiking'', 1)]"
  using cosineSimilarity_symmetric
    [of "[(''personality_openness'', 9 / 10), (''interest_hiking'', 1)]"
        "[(''personality_openness'', 17 / 20), (''interest_hiking'', 1)]" fl]
  by (simp add: vector_keys_def new_Set_def Set_add_def Object_keys_def)

text \<open>
  C9 as stated fails for doubles. The vectors \<open>sym_a\<close> and \<open>sym_b\<close> have the keys
  \<open>p\<close>, \<open>q\<close>, \<open>r\<close> in opposite orders, and the loop visits the keys of its first
  argument first. With \<open>sym_a\<close> first the dot product is \<open>(1 + 1 / 2 ^ 53) + 1 / 2 ^ 53\<close>,
  where each sum rounds to 1; with \<open>sym_b\<close> first it is
  \<open>(1 / 2 ^ 53 + 1 / 2 ^ 53) + 1 = 1 + 1 / 2 ^ 52\<close>. The norms are 1 and 3 both times,
  and the two scores differ.
\<close>

theorem cosineSimilarity_symmetric_counterexample:
  "cosineSimilarity fl sym_a sym_b \<noteq> cosineSimilarity fl sym_b sym_a"
  using cosineSimilarity_doubles_order by simp

text \<open>
  C10, as amended. In exact arithmetic, inserting a new key with weight 0 into either
  argument of \<open>cosineSimilarity\<close> leaves the score unchanged; and a profile whose
  personality trait \<open>t\<close> has intensity 0 scores against every profile \<open>Q\<close>, on either
  side, as the same profile with the trait deleted. In doubles the score is unchanged
  when the key is inserted into the second argument, and when it is inserted into the
  first argument and the second argument does not have it.
\<close>

theorem zero_weight_is_missing_key:
  "(key \<notin> fst ` set A \<longrightarrow>
      cosineSimilarity exact (assign A key 0) B = cosineSimilarity exact A B
      \<and> cosineSimilarity exact B (assign A key 0) = cosineSimilarity exact B A)
   \<and> (distinct (map fst (personalityTraits P)) \<and> (t, 0) \<in> set (personalityTraits P) \<longrightarrow>
        calculateUserSimilarity exact P Q
          = calculateUserSimilarity exact (P\<lparr>personalityTraits := delete_key t (personalityTraits P)\<rparr>) Q
        \<and> calculateUserSimilarity exact Q P
          = calculateUserSimilarity exact Q (P\<lparr>personalityTraits := delete_key t (personalityTraits P)\<rparr>))
   \<and> (key \<notin> fst ` set A \<longrightarrow>
        cosineSimilarity fl B (assign A key 0) = cosineSimilarity fl B A
        \<and> (key \<notin> fst ` set B \<longrightarrow>
             cosineSimilarity fl (assign A key 0) B = cosineSimilarity fl A B))"
proof -
  have "(key \<notin> fst ` set A \<longrightarrow>
      cosineSimilarity (\<lambda>x. x) (assign A key 0) B = cosineSimilarity (\<lambda>x. x) A B
      \<and> cosineSimilarity (\<lambda>x. x) B (assign A key 0) = cosineSimilarity (\<lambda>x. x) B A)
   \<and> (distinct (map fst (personalityTraits P)) \<and> (t, 0) \<in> set (personalityTraits P) \<longrightarrow>
        calculateUserSimilarity (\<lambda>x. x) P Q
          = calculateUserSimilarity (\<lambda>x. x) (P\<lparr>personalityTraits := delete_key t (personalityTraits P)\<rparr>) Q
        \<and> calculateUserSimilarity (\<lambda>x. x) Q P
          = calculateUserSimilarity (\<lambda>x. x) Q (P\<lparr>personalityTraits := delete_key t (personalityTraits P)\<rparr>))"
  proof (intro conjI impI)
    assume new: "key \<notin> fst ` set A"
    show l: "cosineSimilarity (\<lambda>x. x) (assign A key 0) B = cosineSimilarity (\<lambda>x. x) A B"
      by (rule cosineSimilarity_cong) (rule get_or_zero_assign_zero [OF new])
    show "cosineSimilarity (\<lambda>x. x) B (assign A key 0) = cosineSimilarity (\<lambda>x. x) B A"
      using cosineSimilarity_cong [of "assign A key 0" A B, OF get_or_zero_assign_zero [OF new]]
      by (simp add: cosineSimilarity_commute)
  next
    let ?P' = "P\<lparr>personalityTraits := delete_key t (personalityTraits P)\<rparr>"
    assume wf: "distinct (map fst (personalityTraits P)) \<and> (t, 0) \<in> set (personalityTraits P)"
    then have w: "\<And>k. get_or_zero (traitsToVector P) k = get_or_zero (traitsToVector ?P') k"
      by (simp add: get_or_zero_delete_zero_trait)
    have c: "cosineSimilarity (\<lambda>x. x) (traitsToVector P) (traitsToVector Q)
           = cosineSimilarity (\<lambda>x. x) (traitsToVector ?P') (traitsToVector Q)"
      by (rule cosineSimilarity_cong) (rule w)
    then show "calculateUserSimilarity (\<lambda>x. x) P Q = calculateUserSimilarity (\<lambda>x. x) ?P' Q"
      by (simp add: calculateUserSimilarity_def)
    show "calculateUserSimilarity (\<lambda>x. x) Q P = calculateUserSimilarity (\<lambda>x. x) Q ?P'"
      using c by (simp add: calculateUserSimilarity_def cosineSimilarity_commute)
  qed
  moreover have "key \<notin> fst ` set A \<longrightarrow>
        cosineSimilarity fl B (assign A key 0) = cosineSimilarity fl B A
        \<and> (key \<notin> fst ` set B \<longrightarrow>
             cosineSimilarity fl (assign A key 0) B = cosineSimilarity fl A B)"
    using cosineSimilarity_assign_zero_rnd [of fl key A] by (simp add: fl_idem)
  ultimately show ?thesis
    unfolding exact_def by (elim conjE) (intro conjI; assumption)
qed

theorem zero_weight_is_missing_key_witness:
  "''personality_calm'' \<notin> fst ` set [(''interest_hiking'', 1 :: real)]
   \<and> cosineSimilarity exact (assign [(''interest_hiking'', 1)] ''personality_calm'' 0) [(''interest_hiking'', 1)]
       = cosineSimilarity exact [(''interest_hiking'', 1)] [(''interest_hiking'', 1)]
   \<and> distinct (map fst [(''calm'', 0 :: real), (''openness'', 9 / 10)])
   \<and> calculateUserSimilarity exact
         \<lparr>personalityTraits = [(''calm'', 0), (''openness'', 9 / 10)], interests = [''hiking''], values' = []\<rparr>
         \<lparr>personalityTraits = [(''openness'', 17 / 20)], interests = [''hiking''], values' = []\<rparr>
     = calculateUserSimilarity exact
         \<lparr>personalityTraits = [(''openness'', 9 / 10)], interests = [''hiking''], values' = []\<rparr>
         \<lparr>personalityTraits = [(''openness'', 17 / 20)], interests = [''hiking''], values' = []\<rparr>
   \<and> cosineSimilarity fl (assign [(''interest_hiking'', 1)] ''personality_calm'' 0) [(''interest_hiking'', 1)]
       = cosineSimilarity fl [(''interest_hiking'', 1)] [(''interest_hiking'', 1)]"
  using zero_weight_is_missing_key
    [of "''personality_calm''" "[(''interest_hiking'', 1)]" "[(''interest_hiking'', 1)]"
        "\<lparr>personalityTraits = [(''calm'', 0), (''openness'', 9 / 10)], interests = [''hiking''], values' = []\<rparr>"
        "''calm''"
        "\<lparr>personalityTraits = [(''openness'', 17 / 20)], interests = [''hiking''], values' = []\<rparr>"]
  by (simp add: delete_key_def)

text \<open>
  C10 as stated fails for doubles. The key \<open>v\<close> is not in \<open>ins_a\<close> and is the last
  key of \<open>ins_b\<close>. Once \<open>v\<close> is stored in \<open>ins_a\<close> with weight 0 the loop visits it
  before \<open>r\<close>, and the squares of the weights of \<open>ins_b\<close> are added in another
  order: \<open>(9 / 2 ^ 58 + 9 / 2 ^ 58) + 9 / 16\<close> rounds to \<open>9 / 16 + 1 / 2 ^ 53\<close>, where
  \<open>(9 / 2 ^ 58 + 9 / 16) + 9 / 2 ^ 58\<close> rounds to \<open>9 / 16\<close>. The score falls from
  \<open>1 / 2 ^ 27\<close> to a smaller double.
\<close>

theorem zero_weight_is_missing_key_counterexample:
  "''personality_v'' \<notin> fst ` set ins_a
   \<and> cosineSimilarity fl (assign ins_a ''personality_v'' 0) ins_b \<noteq> cosineSimilarity fl ins_a ins_b"
  using zero_weight_doubles_order by simp


section \<open>Properties of the Vectorizer\<close>

text \<open>
  C6, as amended. For a profile whose personality traits have distinct names,
  \<open>traitsToVector\<close> stores exactly the features \<open>personality_\<close> + name with the
  trait's intensity, \<open>interest_\<close> + keyword with 1 and \<open>value_\<close> + keyword with 1:
  the category is followed by an underscore, not by a colon. Every key is stored once,
  so repeated keywords collapse, and the empty profile gives the empty vector.
\<close>

theorem traitsToVector_features:
  "(distinct (map fst (personalityTraits traits)) \<longrightarrow>
      set (traitsToVector traits) =
        (\<lambda>(trait, v). (''personality_'' @ trait, v)) ` set (personalityTraits traits)
        \<union> (\<lambda>interest. (''interest_'' @ interest, 1)) ` set (interests traits)
        \<union> (\<lambda>v. (''value_'' @ v, 1)) ` set (values' traits))
   \<and> distinct (map fst (traitsToVector traits))
   \<and> traitsToVector \<lparr>personalityTraits = [], interests = [], values' = []\<rparr> = []"
proof -
  have "traitsToVector \<lparr>personalityTraits = [], interests = [], values' = []\<rparr> = []"
    by (simp add: traitsToVector_def Object_entries_def)
  moreover have "set (feature_entries traits) =
        (\<lambda>(trait, v). (''personality_'' @ trait, v)) ` set (personalityTraits traits)
        \<union> (\<lambda>interest. (''interest_'' @ interest, 1)) ` set (interests traits)
        \<union> (\<lambda>v. (''value_'' @ v, 1)) ` set (values' traits)"
    by (simp add: feature_entries_def Un_assoc)
  ultimately show ?thesis
    using set_traitsToVector [of traits] distinct_traitsToVector [of traits] by simp
qed

theorem traitsToVector_features_witness:
  "distinct (map fst [(''openness'', 9 / 10 :: real)])
   \<and> set (traitsToVector \<lparr>personalityTraits = [(''openness'', 9 / 10)],
                            interests = [''hiking'', ''hiking''], values' = [''honesty'']\<rparr>)
     = {(''personality_openness'', 9 / 10), (''interest_hiking'', 1), (''value_honesty'', 1)}
   \<and> distinct (map fst (traitsToVector \<lparr>personalityTraits = [(''openness'', 9 / 10)],
                            interests = [''hiking'', ''hiking''], values' = [''honesty'']\<rparr>))"
  using traitsToVector_features
    [of "\<lparr>personalityTraits = [(''openness'', 9 / 10)],
          interests = [''hiking'', ''hiking''], values' = [''honesty'']\<rparr>"]
  by auto

text \<open>
  C6 as stated fails: for the profile with the one trait \<open>x\<close> of intensity 1 the
  specification asks for the key \<open>personality:x\<close>, and the code stores
  \<open>personality_x\<close>.
\<close>

theorem traitsToVector_colon_counterexample:
  "traitsToVector \<lparr>personalityTraits = [(''x'', 1)], interests = [], values' = []\<rparr>
     = [(''personality_x'', 1)]
   \<and> spec_vectorize \<lparr>personalityTraits = [(''x'', 1)], interests = [], values' = []\<rparr>
     = {(''personality:x'', 1)}
   \<and> set (traitsToVector \<lparr>personalityTraits = [(''x'', 1)], interests = [], values' = []\<rparr>)
     \<noteq> spec_vectorize \<lparr>personalityTraits = [(''x'', 1)], interests = [], values' = []\<rparr>"
  by (simp add: traitsToVector_def Object_entries_def spec_vectorize_def)


section \<open>Properties of the Match Ranker\<close>

text \<open>
  C3. For a requester that exists and has a trait profile, and whatever the rounding
  of the scores, \<open>findCompatibleUsers\<close> scores exactly the Candidate Set: the users
  of the requester's community, other than the requester, that the requester has not
  liked and that have a profile, each with its similarity to the requester. The output is drawn from the scored entries, and is
  all of them when the limit allows; no user the requester has liked is in it; and
  likes given by other users, to the requester or to anyone, do not change the result.
\<close>

theorem findCompatibleUsers_candidates:
  assumes "user_findUnique userId db = Some user" and "traitVector user = Some userTraits"
  shows "\<exists>scored.
           matchesWithScores rnd userTraits (potentialMatches userId user db) = Inr scored
         \<and> list_all2 (is_score_of rnd userTraits) (candidate_set userId user db) scored
         \<and> findCompatibleUsers rnd userId limit db = Inr (slice0 (sort_desc scored) limit)
         \<and> set (slice0 (sort_desc scored) limit) \<subseteq> set scored
         \<and> (int (length scored) \<le> limit \<longrightarrow> set (slice0 (sort_desc scored) limit) = set scored)
         \<and> (\<forall>c\<in>set (slice0 (sort_desc scored) limit).
               like_findUnique userId (cand_id c) db = None \<and> cand_id c \<noteq> userId)
         \<and> (list_all (\<lambda>l. fromUserId l \<noteq> userId) ls \<longrightarrow>
               findCompatibleUsers rnd userId limit (db\<lparr>likes := likes db @ ls\<rparr>)
                 = findCompatibleUsers rnd userId limit db)"
proof -
  from potentialMatches_scored [of rnd userTraits userId user db] obtain scored where
    s: "matchesWithScores rnd userTraits (potentialMatches userId user db) = Inr scored"
    and l: "list_all2 (is_score_of rnd userTraits) (candidate_set userId user db) scored"
    by blast
  have sub: "set (slice0 (sort_desc scored) limit) \<subseteq> set scored"
    using set_slice0 [of "sort_desc scored" limit] by (simp add: set_sort_desc)
  have all: "set (slice0 (sort_desc scored) limit) = set scored" if "int (length scored) \<le> limit"
    using that by (simp add: slice0_all length_sort_desc set_sort_desc)
  have liked: "like_findUnique userId (cand_id c) db = None \<and> cand_id c \<noteq> userId"
    if "c \<in> set (slice0 (sort_desc scored) limit)" for c
    using scored_is_candidate [OF l] sub that by blast
  show ?thesis
    using s l findCompatibleUsers_found [OF assms s] sub all liked
      findCompatibleUsers_other_likes [of userId ls rnd limit db]
    by blast
qed

theorem findCompatibleUsers_candidates_witness:
  "user_findUnique 0 example_db = Some user0
   \<and> traitVector user0 = Some profile_a
   \<and> list_all (\<lambda>l. fromUserId l \<noteq> 0) [\<lparr>like_id = 4, fromUserId = 3, toUserId = 0\<rparr>]
   \<and> candidate_set 0 user0 example_db = [user1]
   \<and> findCompatibleUsers fl 0 10 example_db
       = Inr [\<lparr>cand_id = 1, cand_name = ''Bo'', cand_bio = Some ''walker'',
               similarityScore = calculateUserSimilarity fl profile_a profile_b\<rparr>]
   \<and> findCompatibleUsers fl 0 10
         (example_db\<lparr>likes := likes example_db @ [\<lparr>like_id = 4, fromUserId = 3, toUserId = 0\<rparr>]\<rparr>)
       = findCompatibleUsers fl 0 10 example_db"
proof -
  have u: "user_findUnique 0 example_db = Some user0"
    by (simp add: user_findUnique_def example_defs)
  have t: "traitVector user0 = Some profile_a"
    by (simp add: user0_def)
  have c: "candidate_set 0 user0 example_db = [user1]"
    by (simp add: candidate_set_def like_findUnique_def example_defs)
  from findCompatibleUsers_candidates
    [OF u t, of fl 10 "[\<lparr>like_id = 4, fromUserId = 3, toUserId = 0\<rparr>]"]
  obtain scored where
    l: "list_all2 (is_score_of fl profile_a) (candidate_set 0 user0 example_db) scored"
    and f: "findCompatibleUsers fl 0 10 example_db = Inr (slice0 (sort_desc scored) 10)"
    and o: "list_all (\<lambda>l. fromUserId l \<noteq> 0) [\<lparr>like_id = 4, fromUserId = 3, toUserId = 0\<rparr>] \<longrightarrow>
       findCompatibleUsers fl 0 10
         (example_db\<lparr>likes := likes example_db @ [\<lparr>like_id = 4, fromUserId = 3, toUserId = 0\<rparr>]\<rparr>)
       = findCompatibleUsers fl 0 10 example_db"
    by blast
  from l have "scored = [\<lparr>cand_id = 1, cand_name = ''Bo'', cand_bio = Some ''walker'',
               similarityScore = calculateUserSimilarity fl profile_a profile_b\<rparr>]"
    unfolding c by (auto simp: list_all2_Cons1 is_score_of_def user1_def)
  with f have "findCompatibleUsers fl 0 10 example_db
       = Inr [\<lparr>cand_id = 1, cand_name = ''Bo'', cand_bio = Some ''walker'',
               similarityScore = calculateUserSimilarity fl profile_a profile_b\<rparr>]"
    by (simp add: sort_desc_def slice0_def)
  with u t c o show ?thesis by simp
qed


text \<open>
  C4. For a requester that exists and has a trait profile, a positive limit, and
  whatever the rounding of the scores, the output of \<open>findCompatibleUsers\<close> is in
  descending order of score and no longer than the limit; with limit 1 and at least one scored candidate it is the one entry of
  the highest score, the first such in stored order; and with an empty Candidate Set it
  is the empty list, not an error.
\<close>

theorem findCompatibleUsers_sorted_limited:
  assumes "user_findUnique userId db = Some user" and "traitVector user = Some userTraits"
    and "0 < limit"
  shows "\<exists>scored out.
           matchesWithScores rnd userTraits (potentialMatches userId user db) = Inr scored
         \<and> list_all2 (is_score_of rnd userTraits) (candidate_set userId user db) scored
         \<and> findCompatibleUsers rnd userId limit db = Inr out
         \<and> sorted_wrt (\<lambda>a b. similarityScore b \<le> similarityScore a) out
         \<and> int (length out) \<le> limit
         \<and> set out \<subseteq> set scored
         \<and> (limit = 1 \<and> scored \<noteq> [] \<longrightarrow>
              (\<exists>m. out = [m] \<and> m \<in> set scored
                 \<and> (\<forall>c\<in>set scored. similarityScore c \<le> similarityScore m)
                 \<and> m = hd (filter (\<lambda>c. similarityScore c = similarityScore m) scored)))
         \<and> (candidate_set userId user db = [] \<longrightarrow> out = [])"
proof -
  from potentialMatches_scored [of rnd userTraits userId user db] obtain scored where
    s: "matchesWithScores rnd userTraits (potentialMatches userId user db) = Inr scored"
    and l: "list_all2 (is_score_of rnd userTraits) (candidate_set userId user db) scored"
    by blast
  let ?out = "slice0 (sort_desc scored) limit"
  have f: "findCompatibleUsers rnd userId limit db = Inr ?out"
    using findCompatibleUsers_found [OF assms(1,2) s] .
  have srt: "sorted_wrt (\<lambda>a b. similarityScore b \<le> similarityScore a) ?out"
    by (intro sorted_slice0 sorted_sort_desc)
  have len: "int (length ?out) \<le> limit"
    using assms(3) by (intro length_slice0) simp
  have sub: "set ?out \<subseteq> set scored"
    using set_slice0 [of "sort_desc scored" limit] by (simp add: set_sort_desc)
  have one: "\<exists>m. ?out = [m] \<and> m \<in> set scored
                 \<and> (\<forall>c\<in>set scored. similarityScore c \<le> similarityScore m)
                 \<and> m = hd (filter (\<lambda>c. similarityScore c = similarityScore m) scored)"
    if "limit = 1 \<and> scored \<noteq> []"
  proof -
    from that have ne: "sort_desc scored \<noteq> []" using length_sort_desc [of scored] by auto
    then have o: "?out = [hd (sort_desc scored)]" using that by (simp add: slice0_one)
    have "hd (sort_desc scored) \<in> set scored"
      using ne hd_in_set [OF ne] by (simp add: set_sort_desc)
    moreover have "\<forall>c\<in>set scored. similarityScore c \<le> similarityScore (hd (sort_desc scored))"
      using that sort_desc_hd_greatest by blast
    moreover note sort_desc_hd_first [of scored]
    ultimately show ?thesis using o that by blast
  qed
  have emp: "?out = []" if "candidate_set userId user db = []"
    using l that by (simp add: sort_desc_def slice0_def)
  show ?thesis using s l f srt len sub one emp by blast
qed

theorem findCompatibleUsers_sorted_limited_witness:
  "user_findUnique 0 ranking_db = Some rank0
   \<and> traitVector rank0 = Some hiker
   \<and> (0 :: int) < 2
   \<and> candidate_set 0 rank0 ranking_db = [rank1, rank2, rank3]
   \<and> (\<exists>scored out.
         matchesWithScores fl hiker (potentialMatches 0 rank0 ranking_db) = Inr scored
       \<and> map cand_id scored = [1, 2, 3] \<and> map similarityScore scored = [0, 1 / 2, 1]
       \<and> findCompatibleUsers fl 0 2 ranking_db = Inr out
       \<and> map cand_id out = [3, 2] \<and> map similarityScore out = [1, 1 / 2]
       \<and> sorted_wrt (\<lambda>a b. similarityScore b \<le> similarityScore a) out
       \<and> int (length out) \<le> 2 \<and> length out < length scored)
   \<and> (\<exists>m. findCompatibleUsers fl 0 1 ranking_db = Inr [m] \<and> cand_id m = 3 \<and> similarityScore m = 1)
   \<and> user_findUnique 4 example_db = Some user4
   \<and> traitVector user4 = Some profile_b
   \<and> candidate_set 4 user4 example_db = []
   \<and> findCompatibleUsers fl 4 2 example_db = Inr []"
proof -
  have u: "user_findUnique 0 ranking_db = Some rank0"
    by (simp add: user_findUnique_def ranking_defs)
  have t: "traitVector rank0 = Some hiker"
    by (simp add: rank0_def)
  have c: "candidate_set 0 rank0 ranking_db = [rank1, rank2, rank3]"
    by (simp add: candidate_set_def like_findUnique_def ranking_defs)
  have u4: "user_findUnique 4 example_db = Some user4"
    by (simp add: user_findUnique_def example_defs)
  have t4: "traitVector user4 = Some profile_b"
    by (simp add: user4_def)
  have c4: "candidate_set 4 user4 example_db = []"
    by (simp add: candidate_set_def like_findUnique_def example_defs)
  have f2: "findCompatibleUsers fl 0 2 ranking_db
      = Inr [\<lparr>cand_id = 3, cand_name = ''Ida'', cand_bio = Some ''hiker too'', similarityScore = 1\<rparr>,
             \<lparr>cand_id = 2, cand_name = ''Hal'', cand_bio = Some ''everything'', similarityScore = 1 / 2\<rparr>]"
    by (simp add: findCompatibleUsers_def u t ranking_scored sort_desc_def slice0_def)
  from findCompatibleUsers_sorted_limited [OF u t, of 2 fl]
  obtain scored out where
    s: "matchesWithScores fl hiker (potentialMatches 0 rank0 ranking_db) = Inr scored"
    and f: "findCompatibleUsers fl 0 2 ranking_db = Inr out"
    and srt: "sorted_wrt (\<lambda>a b. similarityScore b \<le> similarityScore a) out"
    and len: "int (length out) \<le> 2"
    by auto
  from s have sc: "map cand_id scored = [1, 2, 3]" "map similarityScore scored = [0, 1 / 2, 1]"
    "length scored = 3"
    unfolding ranking_scored by auto
  from f have o: "map cand_id out = [3, 2]" "map similarityScore out = [1, 1 / 2]" "length out = 2"
    unfolding f2 by auto
  have two: "\<exists>scored out.
         matchesWithScores fl hiker (potentialMatches 0 rank0 ranking_db) = Inr scored
       \<and> map cand_id scored = [1, 2, 3] \<and> map similarityScore scored = [0, 1 / 2, 1]
       \<and> findCompatibleUsers fl 0 2 ranking_db = Inr out
       \<and> map cand_id out = [3, 2] \<and> map similarityScore out = [1, 1 / 2]
       \<and> sorted_wrt (\<lambda>a b. similarityScore b \<le> similarityScore a) out
       \<and> int (length out) \<le> 2 \<and> length out < length scored"
    using s sc f o srt len by (intro exI [of _ scored] exI [of _ out]) simp
  from findCompatibleUsers_sorted_limited [OF u t, of 1 fl]
  obtain scored' out' where
    s': "matchesWithScores fl hiker (potentialMatches 0 rank0 ranking_db) = Inr scored'"
    and f': "findCompatibleUsers fl 0 1 ranking_db = Inr out'"
    and h: "(1 :: int) = 1 \<and> scored' \<noteq> [] \<longrightarrow> (\<exists>m. out' = [m] \<and> m \<in> set scored'
                 \<and> (\<forall>c\<in>set scored'. similarityScore c \<le> similarityScore m)
                 \<and> m = hd (filter (\<lambda>c. similarityScore c = similarityScore m) scored'))"
    by auto
  from s' have e': "scored' = [\<lparr>cand_id = 1, cand_name = ''Gus'', cand_bio = Some ''chess'', similarityScore = 0\<rparr>,
            \<lparr>cand_id = 2, cand_name = ''Hal'', cand_bio = Some ''everything'', similarityScore = 1 / 2\<rparr>,
            \<lparr>cand_id = 3, cand_name = ''Ida'', cand_bio = Some ''hiker too'', similarityScore = 1\<rparr>]"
    unfolding ranking_scored by simp
  from h obtain m where m: "out' = [m]" "m \<in> set scored'"
    "\<forall>c\<in>set scored'. similarityScore c \<le> similarityScore m"
    unfolding e' by auto
  from m(2,3) have "cand_id m = 3 \<and> similarityScore m = 1" unfolding e' by auto
  with f' m(1) have one: "\<exists>m. findCompatibleUsers fl 0 1 ranking_db = Inr [m] \<and> cand_id m = 3 \<and> similarityScore m = 1"
    by auto
  from findCompatibleUsers_sorted_limited [OF u4 t4, of 2 fl]
  have e: "findCompatibleUsers fl 4 2 example_db = Inr []"
    unfolding c4 by auto
  show ?thesis using u t c two one u4 t4 c4 e by simp
qed


text \<open>
  C5. \<open>findCompatibleUsers\<close> fails exactly when there is no row for the requester or
  the requester's \<open>traitVector\<close> is null. In the second case the error is
  \<open>User does not have trait vector data\<close>, no list is produced, and
  \<open>GET /potential\<close> hands the message to the caller in a reply of status 500.
\<close>

theorem findCompatibleUsers_fails_iff:
  "(isl (findCompatibleUsers rnd userId limit db) \<longleftrightarrow>
      (case user_findUnique userId db of None \<Rightarrow> True | Some user \<Rightarrow> traitVector user = None))
   \<and> (user_findUnique userId db = None \<longrightarrow>
        findCompatibleUsers rnd userId limit db = Inl (Error ''User not found''))
   \<and> (user_findUnique userId db = Some user \<and> traitVector user = None \<longrightarrow>
        findCompatibleUsers rnd userId limit db = Inl (Error ''User does not have trait vector data'')
        \<and> (1 \<le> limit \<and> limit \<le> 20 \<longrightarrow>
             get_potential rnd userId (Some (Some limit)) db
               = Reply 500 (ErrorBody ''User does not have trait vector data'')))"
proof -
  have ok: "\<not> isl (findCompatibleUsers rnd userId limit db)"
    if "user_findUnique userId db = Some u" "traitVector u = Some t" for u t
    using potentialMatches_scored [of rnd t userId u db] findCompatibleUsers_found [OF that]
    by auto
  have "isl (findCompatibleUsers rnd userId limit db) \<longleftrightarrow>
      (case user_findUnique userId db of None \<Rightarrow> True | Some user \<Rightarrow> traitVector user = None)"
  proof (cases "user_findUnique userId db")
    case None
    then show ?thesis by (simp add: findCompatibleUsers_def)
  next
    case (Some u)
    show ?thesis
    proof (cases "traitVector u")
      case None
      with Some show ?thesis by (simp add: findCompatibleUsers_def)
    next
      case (Some t)
      with \<open>user_findUnique userId db = Some u\<close> ok show ?thesis by simp
    qed
  qed
  then show ?thesis
    by (auto simp: findCompatibleUsers_def get_potential_def)
qed


theorem findCompatibleUsers_fails_iff_witness:
  "user_findUnique 3 example_db = Some user3
   \<and> traitVector user3 = None
   \<and> findCompatibleUsers fl 3 5 example_db = Inl (Error ''User does not have trait vector data'')
   \<and> get_potential fl 3 (Some (Some 5)) example_db
       = Reply 500 (ErrorBody ''User does not have trait vector data'')
   \<and> user_findUnique 9 example_db = None
   \<and> findCompatibleUsers fl 9 5 example_db = Inl (Error ''User not found'')"
proof -
  have u: "user_findUnique 3 example_db = Some user3" "traitVector user3 = None"
    "user_findUnique 9 example_db = None"
    by (simp_all add: user_findUnique_def example_defs)
  show ?thesis
    using u findCompatibleUsers_fails_iff [of fl 3 5 example_db user3]
      findCompatibleUsers_fails_iff [of fl 9 5 example_db]
    by simp
qed



section \<open>Properties of the Reciprocity Resolver\<close>

text \<open>
  C1. When one of the two directed likes is absent, \<open>createMatchIfMutualLike\<close>
  returns null and leaves the database as it is. When both likes exist, in consistent
  rows, it returns a match \<open>m\<close> and afterwards \<open>m\<close> is the one row of \<open>Match\<close>
  for the unordered pair: it is appended as \<open>(a, b)\<close> when the pair had no match, and
  it is the stored row, in either orientation, with nothing written, when the pair had
  one. Calling again, in either argument order, returns the same \<open>m\<close> and writes
  nothing.
\<close>

theorem createMatchIfMutualLike_idempotent:
  "(like_findUnique a b db = None \<or> like_findUnique b a db = None \<longrightarrow>
      createMatchIfMutualLike a b db = Inr (None, db))
   \<and> (db_consistent db \<and> like_findUnique a b db \<noteq> None \<and> like_findUnique b a db \<noteq> None \<longrightarrow>
        (\<exists>m db'. createMatchIfMutualLike a b db = Inr (Some m, db')
           \<and> pair_matches a b db' = [m]
           \<and> (pair_matches a b db = [] \<longrightarrow>
                 matches db' = matches db @ [m] \<and> userAId m = a \<and> userBId m = b)
           \<and> (pair_matches a b db \<noteq> [] \<longrightarrow> db' = db)
           \<and> likes db' = likes db
           \<and> db_consistent db'
           \<and> createMatchIfMutualLike a b db' = Inr (Some m, db')
           \<and> createMatchIfMutualLike b a db' = Inr (Some m, db')))"
proof (intro conjI impI)
  assume "like_findUnique a b db = None \<or> like_findUnique b a db = None"
  then have "\<not> checkMutualLike a b db" by (auto simp: checkMutualLike_iff)
  then show "createMatchIfMutualLike a b db = Inr (None, db)"
    by (rule createMatchIfMutualLike_not_mutual)
next
  assume h: "db_consistent db \<and> like_findUnique a b db \<noteq> None \<and> like_findUnique b a db \<noteq> None"
  then have c: "db_consistent db" and mutual: "checkMutualLike a b db"
    by (simp_all add: checkMutualLike_iff)
  from createMatchIfMutualLike_mutual [OF c mutual] obtain m db' where
    r: "createMatchIfMutualLike a b db = Inr (Some m, db')"
    and one: "pair_matches a b db' = [m]"
    and new: "pair_matches a b db = [] \<longrightarrow>
                 db' = db\<lparr>matches := matches db @ [m], matchSeq := matchSeq db + 1\<rparr>
                 \<and> m = \<lparr>match_id = matchSeq db, userAId = a, userBId = b\<rparr>"
    and old: "pair_matches a b db \<noteq> [] \<longrightarrow> db' = db"
    and c': "db_consistent db'"
    by blast
  have l: "likes db' = likes db"
    using new old by (cases "pair_matches a b db = []") auto
  then have mutual': "checkMutualLike a b db'"
    using mutual by (simp add: checkMutualLike_def like_findUnique_def)
  then have mutual'': "checkMutualLike b a db'"
    by (simp add: checkMutualLike_commute)
  have again: "createMatchIfMutualLike a b db' = Inr (Some m, db')"
    using createMatchIfMutualLike_existing [OF mutual' one] .
  have "pair_matches b a db' = [m]" using one by (simp add: pair_matches_commute)
  then have swapped: "createMatchIfMutualLike b a db' = Inr (Some m, db')"
    using createMatchIfMutualLike_existing [OF mutual''] by simp
  have new': "pair_matches a b db = [] \<longrightarrow>
                 matches db' = matches db @ [m] \<and> userAId m = a \<and> userBId m = b"
    using new by auto
  show "\<exists>m db'. createMatchIfMutualLike a b db = Inr (Some m, db')
           \<and> pair_matches a b db' = [m]
           \<and> (pair_matches a b db = [] \<longrightarrow>
                 matches db' = matches db @ [m] \<and> userAId m = a \<and> userBId m = b)
           \<and> (pair_matches a b db \<noteq> [] \<longrightarrow> db' = db)
           \<and> likes db' = likes db
           \<and> db_consistent db'
           \<and> createMatchIfMutualLike a b db' = Inr (Some m, db')
           \<and> createMatchIfMutualLike b a db' = Inr (Some m, db')"
    using r one new' old l c' again swapped by blast
qed

theorem createMatchIfMutualLike_idempotent_witness:
  "db_consistent example_db
   \<and> like_findUnique 0 2 example_db \<noteq> None \<and> like_findUnique 2 0 example_db \<noteq> None
   \<and> pair_matches 0 2 example_db = []
   \<and> (\<exists>m db'. createMatchIfMutualLike 0 2 example_db = Inr (Some m, db')
         \<and> pair_matches 0 2 db' = [m]
         \<and> matches db' = [m] \<and> userAId m = 0 \<and> userBId m = 2
         \<and> createMatchIfMutualLike 0 2 db' = Inr (Some m, db')
         \<and> createMatchIfMutualLike 2 0 db' = Inr (Some m, db'))
   \<and> like_findUnique 0 1 example_db = None
   \<and> createMatchIfMutualLike 1 0 example_db = Inr (None, example_db)"
proof -
  have l: "like_findUnique 0 2 example_db \<noteq> None" "like_findUnique 2 0 example_db \<noteq> None"
    "like_findUnique 0 1 example_db = None"
    by (simp_all add: like_findUnique_def example_defs)
  have p: "pair_matches 0 2 example_db = []" "matches example_db = []"
    by (simp_all add: pair_matches_def example_defs)
  show ?thesis
    using db_consistent_example l p
      createMatchIfMutualLike_idempotent [of 0 2 example_db]
      createMatchIfMutualLike_idempotent [of 1 0 example_db]
    by (simp del: not_None_eq) blast
qed



text \<open>
  C2. In consistent rows, \<open>DELETE /like/:userId\<close> for an existing like from \<open>a\<close>
  to \<open>b\<close> deletes the like and replies 200 with \<open>matchDeleted\<close> true exactly when
  the pair had a match, in either orientation; afterwards the pair has no match. When
  the pair had none, no row of \<open>Match\<close> is touched; when it had one, only that row
  is removed.
\<close>

theorem delete_like_removes_match:
  assumes c: "db_consistent db" and l: "like_findUnique a b db \<noteq> None"
  shows "\<exists>db'. delete_like a (Some b) db = (Reply 200 (UnlikeBody True (pair_matches a b db \<noteq> [])), db')
           \<and> like_findUnique a b db' = None
           \<and> pair_matches a b db' = []
           \<and> (pair_matches a b db = [] \<longrightarrow> matches db' = matches db)
           \<and> (\<forall>m. pair_matches a b db = [m] \<longrightarrow> matches db' = remove1 m (matches db))
           \<and> db_consistent db'"
proof -
  from l obtain lk where lk: "like_findUnique a b db = Some lk" by auto
  let ?db1 = "db\<lparr>likes := remove1 lk (likes db)\<rparr>"
  note d1 = like_delete_found [OF c lk]
  have pm1: "pair_matches a b ?db1 = pair_matches a b db"
    by (simp add: pair_matches_def)
  show ?thesis
  proof (cases "pair_matches a b db")
    case Nil
    then have "match_findFirst a b ?db1 = None"
      using pm1 by (simp add: match_findFirst_pair_matches)
    then have "delete_like a (Some b) db = (Reply 200 (UnlikeBody True False), ?db1)"
      using d1(1) by (simp add: delete_like_def)
    then show ?thesis using Nil d1(2,3) pm1 by simp
  next
    case (Cons m rest)
    have "rest = []" using pair_matches_le1 [OF c, of a b] Cons by simp
    with Cons have one: "pair_matches a b ?db1 = [m]" using pm1 by simp
    let ?db2 = "?db1\<lparr>matches := remove1 m (matches ?db1)\<rparr>"
    note d2 = match_delete_found [OF d1(3) one]
    have "match_findFirst a b ?db1 = Some m"
      using one by (simp add: match_findFirst_pair_matches)
    then have "delete_like a (Some b) db = (Reply 200 (UnlikeBody True True), ?db2)"
      using d1(1) d2(1) by (simp add: delete_like_def)
    moreover have "like_findUnique a b ?db2 = None"
      using d1(2) by (simp add: like_findUnique_def)
    moreover have "matches ?db2 = remove1 m (matches db)" by simp
    ultimately show ?thesis using Cons \<open>rest = []\<close> d2(2,3) by simp
  qed
qed

theorem delete_like_removes_match_witness:
  "db_consistent matched_db
   \<and> like_findUnique 0 2 matched_db \<noteq> None \<and> like_findUnique 2 0 matched_db \<noteq> None
   \<and> pair_matches 0 2 matched_db = [\<lparr>match_id = 1, userAId = 2, userBId = 0\<rparr>]
   \<and> (\<exists>db'. delete_like 0 (Some 2) matched_db = (Reply 200 (UnlikeBody True True), db')
         \<and> pair_matches 0 2 db' = [] \<and> matches db' = [])
   \<and> (\<exists>db'. delete_like 2 (Some 0) matched_db = (Reply 200 (UnlikeBody True True), db')
         \<and> pair_matches 2 0 db' = [] \<and> matches db' = [])
   \<and> like_findUnique 1 0 matched_db \<noteq> None
   \<and> pair_matches 1 0 matched_db = []
   \<and> (\<exists>db'. delete_like 1 (Some 0) matched_db = (Reply 200 (UnlikeBody True False), db')
         \<and> matches db' = matches matched_db)"
proof -
  have l: "like_findUnique 0 2 matched_db \<noteq> None" "like_findUnique 2 0 matched_db \<noteq> None"
    "like_findUnique 1 0 matched_db \<noteq> None"
    by (simp_all add: like_findUnique_def matched_db_def example_defs)
  have p: "pair_matches 0 2 matched_db = [\<lparr>match_id = 1, userAId = 2, userBId = 0\<rparr>]"
    "pair_matches 2 0 matched_db = [\<lparr>match_id = 1, userAId = 2, userBId = 0\<rparr>]"
    "pair_matches 1 0 matched_db = []"
    "matches matched_db = [\<lparr>match_id = 1, userAId = 2, userBId = 0\<rparr>]"
    by (simp_all add: pair_matches_def pair_where_def matched_db_def example_defs)
  have a: "\<exists>db'. delete_like 0 (Some 2) matched_db = (Reply 200 (UnlikeBody True True), db')
         \<and> pair_matches 0 2 db' = [] \<and> matches db' = []"
    using delete_like_removes_match [OF db_consistent_matched l(1)] p by auto
  have b: "\<exists>db'. delete_like 2 (Some 0) matched_db = (Reply 200 (UnlikeBody True True), db')
         \<and> pair_matches 2 0 db' = [] \<and> matches db' = []"
    using delete_like_removes_match [OF db_consistent_matched l(2)] p by auto
  have c: "\<exists>db'. delete_like 1 (Some 0) matched_db = (Reply 200 (UnlikeBody True False), db')
         \<and> matches db' = matches matched_db"
    using delete_like_removes_match [OF db_consistent_matched l(3)] p by auto
  show ?thesis
    using db_consistent_matched l p(1,3) a b c by blast
qed


end
